theory Spec2Isabelle
  imports Main "HOL-Library.Word"
begin

section \<open>The SQS URL producer\<close>

text \<open>
  A shallow embedding of the producer's \<^verbatim>\<open>main.go\<close> (package \<^verbatim>\<open>main\<close>) and of
  \<^verbatim>\<open>models.URLs\<close>. The database and the queue are outside the program: the table is a
  list of rows, the outcome of every call that can fail (the fetch, the submission and the
  update) is read from an environment, and
  every call the program makes is appended to a trace, stamped with the time at which it is
  made. Time is counted in nanoseconds, as \<^verbatim>\<open>time.Duration\<close> does, and only
  \<^verbatim>\<open>time.Sleep\<close> advances it. Log output is not modelled.
\<close>

subsection \<open>Constants\<close>

definition Second :: nat where
  "Second = 1000000000"

definition BatchSize :: nat where
  "BatchSize = 10"

definition RetryAttempts :: nat where
  "RetryAttempts = 3"

definition RetryBackoff :: nat where
  "RetryBackoff = 2 * Second"

definition DatabaseLimit :: nat where
  "DatabaseLimit = 100"

definition PollingInterval :: nat where
  "PollingInterval = 10 * Second"

subsection \<open>Data\<close>

text \<open>The struct \<^verbatim>\<open>models.URLs\<close>: the two fields it declares.\<close>

record URLs =
  ID :: nat
  URL :: string

text \<open>
  A column as the struct tags of \<^verbatim>\<open>models.URLs\<close> declare it, and the columns of the
  entity passed to \<^verbatim>\<open>db.AutoMigrate\<close>.
\<close>

record column =
  column_name :: string
  primary_key :: bool
  autoIncrement :: bool
  not_null :: bool

definition URLs_columns :: "column list" where
  "URLs_columns =
     [\<lparr>column_name = ''id'', primary_key = True, autoIncrement = True, not_null = False\<rparr>,
      \<lparr>column_name = ''url'', primary_key = False, autoIncrement = False, not_null = True\<rparr>]"

text \<open>
  The columns the two queries of \<^verbatim>\<open>processURLs\<close> name: the filter of the fetch
  (\<^verbatim>\<open>Where("processed = ?", false)\<close>), and the condition and the target of the update
  (\<^verbatim>\<open>Where("url = ?", ...).Update("processed", true)\<close>).
\<close>

definition Find_where_column :: string where
  "Find_where_column = ''processed''"

definition Update_where_column :: string where
  "Update_where_column = ''url''"

definition Update_set_column :: string where
  "Update_set_column = ''processed''"

text \<open>
  A row of the table as the queries address it: the two declared columns and the
  \<^verbatim>\<open>processed\<close> flag that the queries filter on and set.
\<close>

record urls_row =
  row_id :: nat
  row_url :: string
  row_processed :: bool

text \<open>\<^verbatim>\<open>types.SendMessageBatchRequestEntry\<close>, the three fields the program fills.\<close>

record SendMessageBatchRequestEntry =
  Id' :: string
  MessageBody :: string
  MessageGroupId :: string

datatype error =
    QueryError
  | SendError
  | RetriesExhausted nat

text \<open>
  The calls that reach outside the program. A submission records the batch and whether the
  queue accepted it, an update the url and whether the database executed it.
\<close>

datatype event =
    Ev_Find
  | Ev_SendMessageBatch "SendMessageBatchRequestEntry list" bool
  | Ev_Update string bool
  | Ev_Sleep nat

text \<open>
  The state the program runs in: the table, the clock, the trace of calls, the number of
  fetches, submissions and updates made so far (the position in the environment's answers),
  and the counter \<^verbatim>\<open>messageCount\<close> of \<^verbatim>\<open>main\<close>, a Go \<^verbatim>\<open>int\<close>, which
  \<^verbatim>\<open>processURLs\<close> updates through a pointer.
\<close>

record world =
  urls_table :: "urls_row list"
  clock :: nat
  trace :: "(nat \<times> event) list"
  finds :: nat
  sends :: nat
  updates :: nat
  messageCount :: "64 word"

text \<open>
  What the program cannot decide: the instant at which the termination signal cancels the
  context (if ever), whether the \<open>k\<close>-th fetch returns an error, whether the \<open>k\<close>-th
  submission returns an error, given whether the context passed to it is already cancelled,
  and whether the \<open>k\<close>-th update returns an error.
\<close>

record env =
  cancel_at :: "nat option"
  Find_fails :: "nat \<Rightarrow> bool"
  Send_fails :: "nat \<Rightarrow> bool \<Rightarrow> bool"
  Update_fails :: "nat \<Rightarrow> bool"

subsection \<open>Formatting\<close>

function dec_digits :: "nat \<Rightarrow> string" where
  "dec_digits n =
     (if n < 10 then [''0123456789'' ! n]
      else dec_digits (n div 10) @ [''0123456789'' ! (n mod 10)])"
  by pat_completeness auto
termination
  by (relation "measure id") auto

text \<open>\<^verbatim>\<open>fmt.Sprintf("%d", i)\<close>.\<close>

definition Sprintf_d :: "int \<Rightarrow> string" where
  "Sprintf_d i = (if i < 0 then CHR ''-'' # dec_digits (nat (- i)) else dec_digits (nat i))"

subsection \<open>The outside calls\<close>

definition ctx_Done :: "env \<Rightarrow> world \<Rightarrow> bool" where
  "ctx_Done e w = (case cancel_at e of None \<Rightarrow> False | Some t \<Rightarrow> t \<le> clock w)"

definition emit :: "event \<Rightarrow> world \<Rightarrow> world" where
  "emit ev w = w\<lparr>trace := trace w @ [(clock w, ev)]\<rparr>"

text \<open>\<^verbatim>\<open>time.Sleep(d)\<close>: it takes no context and always lasts \<open>d\<close>.\<close>

definition time_Sleep :: "nat \<Rightarrow> world \<Rightarrow> world" where
  "time_Sleep d w = (emit (Ev_Sleep d) w)\<lparr>clock := clock w + d\<rparr>"

text \<open>
  \<^verbatim>\<open>db.Limit(DatabaseLimit).Where("processed = ?", false).Find(&urls)\<close>: the first
  \<open>DatabaseLimit\<close> unprocessed rows, in the order of the table, read into
  \<^verbatim>\<open>models.URLs\<close> values; or an error.
\<close>

definition Find_unprocessed :: "env \<Rightarrow> world \<Rightarrow> (error + URLs list) \<times> world" where
  "Find_unprocessed e w =
     (let w1 = (emit Ev_Find w)\<lparr>finds := finds w + 1\<rparr> in
      if Find_fails e (finds w) then (Inl QueryError, w1)
      else (Inr (map (\<lambda>r. \<lparr>ID = row_id r, URL = row_url r\<rparr>)
                  (take DatabaseLimit (filter (\<lambda>r. \<not> row_processed r) (urls_table w)))),
            w1))"

text \<open>
  \<^verbatim>\<open>db.Model(&models.URLs{}).Where("url = ?", u).Update("processed", true)\<close>: when the
  database executes the statement, every row whose url is \<open>u\<close> gets the flag; when the
  call returns an error, no row changes. The source discards the call's result, so the
  program goes on in the same way in both cases.
\<close>

definition Update_processed :: "env \<Rightarrow> string \<Rightarrow> world \<Rightarrow> world" where
  "Update_processed e u w =
     (let failed = Update_fails e (updates w);
          w1 = (emit (Ev_Update u (\<not> failed)) w)\<lparr>updates := updates w + 1\<rparr>
      in if failed then w1
         else w1\<lparr>urls_table :=
                map (\<lambda>r. if row_url r = u then r\<lparr>row_processed := True\<rparr> else r)
                  (urls_table w)\<rparr>)"

text \<open>\<^verbatim>\<open>sqsClient.SendMessageBatch(ctx, ...)\<close>: one submission of the whole batch.\<close>

definition SendMessageBatch ::
  "env \<Rightarrow> SendMessageBatchRequestEntry list \<Rightarrow> world \<Rightarrow> error option \<times> world" where
  "SendMessageBatch e batch w =
     (let failed = Send_fails e (sends w) (ctx_Done e w);
          w1 = (emit (Ev_SendMessageBatch batch (\<not> failed)) w)\<lparr>sends := sends w + 1\<rparr>
      in (if failed then Some SendError else None, w1))"

subsection \<open>sendBatch\<close>

text \<open>The loop of \<^verbatim>\<open>sendBatch\<close>, from the value \<open>attempt\<close> of its counter on.\<close>

function sendBatch_from ::
  "env \<Rightarrow> nat \<Rightarrow> SendMessageBatchRequestEntry list \<Rightarrow> world \<Rightarrow> error option \<times> world" where
  "sendBatch_from e attempt batch w =
     (if attempt < RetryAttempts then
        (case SendMessageBatch e batch w of
           (None, w1) \<Rightarrow> (None, w1)
         | (Some err, w1) \<Rightarrow>
             sendBatch_from e (attempt + 1) batch
               (time_Sleep (RetryBackoff * (attempt + 1)) w1))
      else (Some (RetriesExhausted RetryAttempts), w))"
  by pat_completeness auto
termination
  by (relation "measure (\<lambda>(e, attempt, batch, w). RetryAttempts - attempt)") auto

definition sendBatch ::
  "env \<Rightarrow> SendMessageBatchRequestEntry list \<Rightarrow> world \<Rightarrow> error option \<times> world" where
  "sendBatch e batch w = sendBatch_from e 0 batch w"

subsection \<open>processURLs\<close>

text \<open>
  The body of the \<^verbatim>\<open>if\<close> that closes a batch: send it and, when \<^verbatim>\<open>sendBatch\<close>
  returns \<^verbatim>\<open>nil\<close>, issue the update for every entry's url.
\<close>

definition send_and_update :: "env \<Rightarrow> SendMessageBatchRequestEntry list \<Rightarrow> world \<Rightarrow> world" where
  "send_and_update e batch w =
     (case sendBatch e batch w of
        (Some err, w1) \<Rightarrow> w1
      | (None, w1) \<Rightarrow> fold (\<lambda>entry. Update_processed e (MessageBody entry)) batch w1)"

definition new_entry :: "64 word \<Rightarrow> URLs \<Rightarrow> SendMessageBatchRequestEntry" where
  "new_entry c url =
     \<lparr>Id' = ''msg-'' @ Sprintf_d (sint c),
      MessageBody = URL url,
      MessageGroupId = ''group-'' @ Sprintf_d (sint c)\<rparr>"

text \<open>
  The loop \<^verbatim>\<open>for i, url := range urls\<close>: \<open>n\<close> is \<^verbatim>\<open>len(urls)\<close>, \<open>i\<close> the index of the
  head of the remaining urls, \<open>batch\<close> the entries collected since the last submission.
\<close>

fun range_urls ::
  "env \<Rightarrow> nat \<Rightarrow> nat \<Rightarrow> URLs list \<Rightarrow> SendMessageBatchRequestEntry list \<Rightarrow> world \<Rightarrow> world" where
  "range_urls e n i [] batch w = w"
| "range_urls e n i (url # rest) batch w =
     (let w1 = w\<lparr>messageCount := messageCount w + 1\<rparr>;
          batch1 = batch @ [new_entry (messageCount w1) url]
      in if length batch1 = BatchSize \<or> int i = int n - 1
         then range_urls e n (i + 1) rest [] (send_and_update e batch1 w1)
         else range_urls e n (i + 1) rest batch1 w1)"

definition processURLs :: "env \<Rightarrow> world \<Rightarrow> world" where
  "processURLs e w =
     (case Find_unprocessed e w of
        (Inl err, w1) \<Rightarrow> w1
      | (Inr urls, w1) \<Rightarrow>
          if length urls = 0 then w1
          else range_urls e (length urls) 0 urls [] w1)"

subsection \<open>The loop of main\<close>

text \<open>
  The goroutine of \<^verbatim>\<open>main\<close>: it returns when the context is cancelled at the top of an
  iteration, and otherwise runs one tick and sleeps. It need not return: the result is
  \<open>None\<close> when it does not.
\<close>

partial_function (option) producer :: "env \<Rightarrow> world \<Rightarrow> world option" where
  "producer e w =
     (if ctx_Done e w then Some w
      else producer e (time_Sleep PollingInterval (processURLs e w)))"

text \<open>The world at the start of the iteration \<open>k\<close> iterations after \<open>w\<close>.\<close>

primrec ticks :: "env \<Rightarrow> nat \<Rightarrow> world \<Rightarrow> world" where
  "ticks e 0 w = w"
| "ticks e (Suc k) w = ticks e k (time_Sleep PollingInterval (processURLs e w))"

text \<open>
  The same loop, watched from outside: the state in which the loop starts its iteration
  number \<open>k\<close> (counting from zero), or \<open>None\<close> when it has returned before.
\<close>

primrec at_iteration :: "env \<Rightarrow> nat \<Rightarrow> world \<Rightarrow> world option" where
  "at_iteration e 0 w = Some w"
| "at_iteration e (Suc k) w =
     (if ctx_Done e w then None
      else at_iteration e k (time_Sleep PollingInterval (processURLs e w)))"

section \<open>What the specification speaks of\<close>

subsection \<open>Consecutive chunks\<close>

text \<open>
  The partition the specification describes: consecutive chunks of at most \<open>k\<close> elements,
  in order, of which only the last may be shorter.
\<close>

function chunks_of :: "nat \<Rightarrow> 'a list \<Rightarrow> 'a list list" where
  "chunks_of k xs = (if k = 0 \<or> xs = [] then [] else take k xs # chunks_of k (drop k xs))"
  by pat_completeness auto
termination
  by (relation "measure (\<lambda>(k, xs). length xs)") auto

text \<open>The entries the loop builds for the urls, when the counter stands at \<open>c\<close> before.\<close>

fun entries_from :: "64 word \<Rightarrow> URLs list \<Rightarrow> SendMessageBatchRequestEntry list" where
  "entries_from c [] = []"
| "entries_from c (url # rest) = new_entry (c + 1) url # entries_from (c + 1) rest"

subsection \<open>Runs of the retry loop\<close>

text \<open>The state after a submission of \<open>batch\<close> with the given outcome.\<close>

definition record_send :: "SendMessageBatchRequestEntry list \<Rightarrow> bool \<Rightarrow> world \<Rightarrow> world" where
  "record_send batch ok w = (emit (Ev_SendMessageBatch batch ok) w)\<lparr>sends := sends w + 1\<rparr>"

text \<open>
  \<open>j\<close> rounds of a refused submission followed by a sleep, the sleeps lasting
  \<open>RetryBackoff * k\<close>, \<open>RetryBackoff * (k + 1)\<close>, and so on.
\<close>

fun retry_script :: "SendMessageBatchRequestEntry list \<Rightarrow> nat \<Rightarrow> nat \<Rightarrow> world \<Rightarrow> world" where
  "retry_script batch k 0 w = w"
| "retry_script batch k (Suc j) w =
     retry_script batch (k + 1) j (time_Sleep (RetryBackoff * k) (record_send batch False w))"

subsection \<open>Reading a trace\<close>

text \<open>
  The message bodies of an accepted submission, the url of an update, and the url of an
  update that the database executed.
\<close>

definition accepted_of :: "event \<Rightarrow> string list" where
  "accepted_of ev =
     (case ev of Ev_SendMessageBatch batch ok \<Rightarrow> if ok then map MessageBody batch else []
      | _ \<Rightarrow> [])"

definition updated_of :: "event \<Rightarrow> string list" where
  "updated_of ev = (case ev of Ev_Update u ok \<Rightarrow> [u] | _ \<Rightarrow> [])"

definition applied_of :: "event \<Rightarrow> string list" where
  "applied_of ev = (case ev of Ev_Update u ok \<Rightarrow> if ok then [u] else [] | _ \<Rightarrow> [])"

definition accepted_bodies :: "(nat \<times> event) list \<Rightarrow> string list" where
  "accepted_bodies tr = concat (map (\<lambda>(t, ev). accepted_of ev) tr)"

definition updated_urls :: "(nat \<times> event) list \<Rightarrow> string list" where
  "updated_urls tr = concat (map (\<lambda>(t, ev). updated_of ev) tr)"

definition applied_urls :: "(nat \<times> event) list \<Rightarrow> string list" where
  "applied_urls tr = concat (map (\<lambda>(t, ev). applied_of ev) tr)"

text \<open>
  Every update in the trace names a url that is in \<open>A\<close> or is the body of an entry of a
  submission accepted earlier in the trace.
\<close>

fun updates_follow_acceptance :: "string set \<Rightarrow> (nat \<times> event) list \<Rightarrow> bool" where
  "updates_follow_acceptance A [] = True"
| "updates_follow_acceptance A ((t, ev) # tr) =
     (set (updated_of ev) \<subseteq> A \<and> updates_follow_acceptance (A \<union> set (accepted_of ev)) tr)"

text \<open>
  The urls of the entries of a batch whose update the database executes, when the update
  for the first entry is update number \<open>k\<close>.
\<close>

fun executed_updates :: "env \<Rightarrow> nat \<Rightarrow> SendMessageBatchRequestEntry list \<Rightarrow> string list" where
  "executed_updates e k [] = []"
| "executed_updates e k (entry # rest) =
     (if Update_fails e k then [] else [MessageBody entry]) @ executed_updates e (Suc k) rest"

text \<open>The table after every row whose url is in \<open>S\<close> got the flag.\<close>

definition mark_urls :: "string set \<Rightarrow> urls_row list \<Rightarrow> urls_row list" where
  "mark_urls S rows = map (\<lambda>r. if row_url r \<in> S then r\<lparr>row_processed := True\<rparr> else r) rows"

text \<open>The calls made between two states of one run.\<close>

definition tick_events :: "world \<Rightarrow> world \<Rightarrow> (nat \<times> event) list" where
  "tick_events w w' = drop (length (trace w)) (trace w')"

definition marks_by_acceptance :: "world \<Rightarrow> world \<Rightarrow> bool" where
  "marks_by_acceptance w w' =
     (let new = tick_events w w' in
      trace w' = trace w @ new \<and>
      updated_urls new = accepted_bodies new \<and>
      updates_follow_acceptance {} new \<and>
      urls_table w' = mark_urls (set (applied_urls new)) (urls_table w) \<and>
      clock w \<le> clock w')"

text \<open>The submissions of a trace: when, the ids of the entries, and the outcome.\<close>

definition submissions :: "(nat \<times> event) list \<Rightarrow> (nat \<times> string list \<times> bool) list" where
  "submissions tr =
     concat (map (\<lambda>(t, ev). case ev of Ev_SendMessageBatch batch ok \<Rightarrow> [(t, map Id' batch, ok)]
                              | _ \<Rightarrow> []) tr)"

definition send_sizes :: "(nat \<times> event) list \<Rightarrow> nat list" where
  "send_sizes tr =
     concat (map (\<lambda>(t, ev). case ev of Ev_SendMessageBatch batch ok \<Rightarrow> [length batch] | _ \<Rightarrow> []) tr)"

definition ids :: "nat \<Rightarrow> nat \<Rightarrow> string list" where
  "ids i j = map (\<lambda>k. ''msg-'' @ dec_digits k) [i..<Suc j]"

section \<open>Scenarios\<close>

text \<open>Tables: \<open>n\<close> unprocessed rows with the urls \<open>u1\<close>, \<open>u2\<close>, and so on.\<close>

definition pending_rows :: "nat \<Rightarrow> urls_row list" where
  "pending_rows n =
     map (\<lambda>i. \<lparr>row_id = i, row_url = ''u'' @ dec_digits i, row_processed = False\<rparr>) [1..<Suc n]"

definition pending_world :: "nat \<Rightarrow> world" where
  "pending_world n = \<lparr>urls_table = pending_rows n, clock = 0, trace = [], finds = 0, sends = 0,
                updates = 0, messageCount = 0\<rparr>"

definition world_0 :: world where
  "world_0 = \<lparr>urls_table = [], clock = 0, trace = [], finds = 0, sends = 0, updates = 0, messageCount = 0\<rparr>"

definition fetched :: "urls_row list \<Rightarrow> URLs list" where
  "fetched rows = map (\<lambda>r. \<lparr>ID = row_id r, URL = row_url r\<rparr>) rows"

definition entry_a :: SendMessageBatchRequestEntry where
  "entry_a = \<lparr>Id' = ''msg-1'', MessageBody = ''a'', MessageGroupId = ''group-1''\<rparr>"

text \<open>Eleven rows, the eleventh with the url of the first.\<close>

definition rows_shared_url :: "urls_row list" where
  "rows_shared_url = pending_rows 10 @ [\<lparr>row_id = 11, row_url = ''u1'', row_processed = False\<rparr>]"

definition world_shared_url :: world where
  "world_shared_url = \<lparr>urls_table = rows_shared_url, clock = 0, trace = [], finds = 0, sends = 0,
                updates = 0, messageCount = 0\<rparr>"

text \<open>Twenty-one rows, the eleventh with the url of the twenty-first.\<close>

definition rows_url_in_two_chunks :: "urls_row list" where
  "rows_url_in_two_chunks =
     map (\<lambda>r. if row_id r = 11 then r\<lparr>row_url := ''u21''\<rparr> else r) (pending_rows 21)"

definition world_url_in_two_chunks :: world where
  "world_url_in_two_chunks =
     \<lparr>urls_table = rows_url_in_two_chunks, clock = 0, trace = [], finds = 0, sends = 0,
      updates = 0, messageCount = 0\<rparr>"

text \<open>Three rows, two of them with the same url.\<close>

definition rows_same_url :: "urls_row list" where
  "rows_same_url =
     [\<lparr>row_id = 1, row_url = ''a'', row_processed = False\<rparr>,
      \<lparr>row_id = 2, row_url = ''a'', row_processed = False\<rparr>,
      \<lparr>row_id = 3, row_url = ''b'', row_processed = False\<rparr>]"

definition world_same_url :: world where
  "world_same_url = \<lparr>urls_table = rows_same_url, clock = 0, trace = [], finds = 0, sends = 0,
                updates = 0, messageCount = 0\<rparr>"

text \<open>
  Environments: nothing fails; the first two submissions fail; every submission fails;
  every submission fails and the context is cancelled one nanosecond after the start; the
  database is down (every fetch and every update fails); only the first submission
  succeeds; the second, third and fourth submissions fail; only the first update fails;
  every update fails; the second, third and fourth submissions and the first update fail.
\<close>

definition env_ok :: env where
  "env_ok =
     \<lparr>cancel_at = None, Find_fails = (\<lambda>k. False),
      Send_fails = (\<lambda>k c. False), Update_fails = (\<lambda>k. False)\<rparr>"

definition env_2_failures :: env where
  "env_2_failures =
     \<lparr>cancel_at = None, Find_fails = (\<lambda>k. False),
      Send_fails = (\<lambda>k c. k < 2), Update_fails = (\<lambda>k. False)\<rparr>"

definition env_all_fail :: env where
  "env_all_fail =
     \<lparr>cancel_at = None, Find_fails = (\<lambda>k. False),
      Send_fails = (\<lambda>k c. True), Update_fails = (\<lambda>k. False)\<rparr>"

definition env_cancelled_early :: env where
  "env_cancelled_early =
     \<lparr>cancel_at = Some 1, Find_fails = (\<lambda>k. False),
      Send_fails = (\<lambda>k c. True), Update_fails = (\<lambda>k. False)\<rparr>"

definition env_db_down :: env where
  "env_db_down =
     \<lparr>cancel_at = None, Find_fails = (\<lambda>k. True),
      Send_fails = (\<lambda>k c. False), Update_fails = (\<lambda>k. True)\<rparr>"

definition env_first_only :: env where
  "env_first_only =
     \<lparr>cancel_at = None, Find_fails = (\<lambda>k. False),
      Send_fails = (\<lambda>k c. 0 < k), Update_fails = (\<lambda>k. False)\<rparr>"

definition env_second_refused :: env where
  "env_second_refused =
     \<lparr>cancel_at = None, Find_fails = (\<lambda>k. False),
      Send_fails = (\<lambda>k c. 1 \<le> k \<and> k \<le> 3), Update_fails = (\<lambda>k. False)\<rparr>"

definition env_first_update_fails :: env where
  "env_first_update_fails =
     \<lparr>cancel_at = None, Find_fails = (\<lambda>k. False), Send_fails = (\<lambda>k c. False),
      Update_fails = (\<lambda>k. k = 0)\<rparr>"

definition env_updates_fail :: env where
  "env_updates_fail =
     \<lparr>cancel_at = None, Find_fails = (\<lambda>k. False), Send_fails = (\<lambda>k c. False),
      Update_fails = (\<lambda>k. True)\<rparr>"

definition env_second_refused_update_fails :: env where
  "env_second_refused_update_fails =
     \<lparr>cancel_at = None, Find_fails = (\<lambda>k. False), Send_fails = (\<lambda>k c. 1 \<le> k \<and> k \<le> 3),
      Update_fails = (\<lambda>k. k = 0)\<rparr>"

section \<open>Auxiliary facts\<close>

declare sendBatch_from.simps [simp del]

lemma SendMessageBatch_cases:
  "SendMessageBatch e batch w = (None, record_send batch True w) \<or>
   SendMessageBatch e batch w = (Some SendError, record_send batch False w)"
  by (simp add: SendMessageBatch_def record_send_def Let_def)

lemma SendMessageBatch_failed:
  "fst (SendMessageBatch e batch w) \<noteq> None \<Longrightarrow>
   SendMessageBatch e batch w = (Some SendError, record_send batch False w)"
  using SendMessageBatch_cases [of e batch w] by auto

lemma SendMessageBatch_accepted:
  "fst (SendMessageBatch e batch w) = None \<Longrightarrow>
   SendMessageBatch e batch w = (None, record_send batch True w)"
  using SendMessageBatch_cases [of e batch w] by auto

lemma sendBatch_from_failures:
  "a + j \<le> RetryAttempts \<Longrightarrow>
   (\<And>i. i < j \<Longrightarrow> fst (SendMessageBatch e batch (retry_script batch (a + 1) i w)) \<noteq> None) \<Longrightarrow>
   sendBatch_from e a batch w =
     sendBatch_from e (a + j) batch (retry_script batch (a + 1) j w)"
proof (induction j arbitrary: a w)
  case 0
  then show ?case by simp
next
  case (Suc j)
  have a: "a < RetryAttempts" using Suc.prems(1) by simp
  have "fst (SendMessageBatch e batch (retry_script batch (a + 1) 0 w)) \<noteq> None"
    using Suc.prems(2) [of 0] by simp
  then have f: "SendMessageBatch e batch w = (Some SendError, record_send batch False w)"
    by (simp add: SendMessageBatch_failed)
  let ?w = "time_Sleep (RetryBackoff * (a + 1)) (record_send batch False w)"
  have step: "sendBatch_from e a batch w = sendBatch_from e (a + 1) batch ?w"
    using a f by (subst sendBatch_from.simps) simp
  have "sendBatch_from e (a + 1) batch ?w =
        sendBatch_from e (a + 1 + j) batch (retry_script batch (a + 1 + 1) j ?w)"
  proof (rule Suc.IH)
    show "a + 1 + j \<le> RetryAttempts" using Suc.prems(1) by simp
  next
    fix i assume "i < j"
    then have "fst (SendMessageBatch e batch (retry_script batch (a + 1) (Suc i) w)) \<noteq> None"
      using Suc.prems(2) [of "Suc i"] by simp
    then show "fst (SendMessageBatch e batch (retry_script batch (a + 1 + 1) i ?w)) \<noteq> None"
      by simp
  qed
  with step show ?case by simp
qed

lemmas world_ops = emit_def time_Sleep_def record_send_def SendMessageBatch_def ctx_Done_def
  RetryBackoff_def Second_def RetryAttempts_def

declare chunks_of.simps [simp del]

lemma chunks_of_Nil [simp]: "chunks_of k [] = []"
  by (simp add: chunks_of.simps)

lemma chunks_of_step: "0 < k \<Longrightarrow> xs \<noteq> [] \<Longrightarrow> chunks_of k xs = take k xs # chunks_of k (drop k xs)"
  by (subst chunks_of.simps) simp

lemma chunks_of_full: "0 < length xs \<Longrightarrow> chunks_of (length xs) (xs @ ys) = xs # chunks_of (length xs) ys"
  by (subst chunks_of.simps) simp

lemma chunks_of_short: "xs \<noteq> [] \<Longrightarrow> length xs \<le> k \<Longrightarrow> chunks_of k xs = [xs]"
  by (subst chunks_of.simps) (cases xs; auto)

lemma concat_chunks_of: "0 < k \<Longrightarrow> concat (chunks_of k xs) = xs"
proof (induction k xs rule: chunks_of.induct)
  case (1 k xs)
  show ?case
  proof (cases "xs = []")
    case True then show ?thesis by simp
  next
    case False
    with 1 show ?thesis by (simp add: chunks_of_step)
  qed
qed

lemma length_chunks_of: "0 < k \<Longrightarrow> length (chunks_of k xs) = (length xs + k - 1) div k"
proof (induction k xs rule: chunks_of.induct)
  case (1 k xs)
  show ?case
  proof (cases "xs = []")
    case True then show ?thesis using 1(2) by simp
  next
    case False
    have ih: "length (chunks_of k (drop k xs)) = (length (drop k xs) + k - 1) div k"
      using 1 False by simp
    show ?thesis
    proof (cases "length xs \<le> k")
      case True
      moreover have "0 < length xs" using False by simp
      ultimately have "length xs + k - 1 < 2 * k" "k \<le> length xs + k - 1"
        by arith+
      then have "(length xs + k - 1) div k = 1"
        by (metis One_nat_def div_nat_eqI mult.commute mult.right_neutral mult_2_right nat_mult_1 mult_Suc_right numeral_2_eq_2 mult_2)
      then show ?thesis using True False 1(2) by (simp add: chunks_of_short)
    next
      case gt: False
      then have "length xs + k - 1 = (length xs - k + k - 1) + k" using 1(2) by simp
      then have "(length xs + k - 1) div k = Suc ((length xs - k + k - 1) div k)"
        using 1(2) by (metis div_add_self2 less_numeral_extra(3) Suc_eq_plus1)
      then show ?thesis using ih False 1(2) by (simp add: chunks_of_step)
    qed
  qed
qed

lemma chunks_of_sizes: "0 < k \<Longrightarrow> c \<in> set (chunks_of k xs) \<Longrightarrow> c \<noteq> [] \<and> length c \<le> k"
proof (induction k xs rule: chunks_of.induct)
  case (1 k xs)
  show ?case
  proof (cases "xs = []")
    case True then show ?thesis using 1(3) by simp
  next
    case False
    then show ?thesis using 1 by (auto simp: chunks_of_step)
  qed
qed

lemma chunks_of_butlast: "0 < k \<Longrightarrow> c \<in> set (butlast (chunks_of k xs)) \<Longrightarrow> length c = k"
proof (induction k xs rule: chunks_of.induct)
  case (1 k xs)
  show ?case
  proof (cases "xs = []")
    case True then show ?thesis using 1(3) by simp
  next
    case False
    show ?thesis
    proof (cases "chunks_of k (drop k xs) = []")
      case True
      then show ?thesis using 1(2,3) False by (simp add: chunks_of_step)
    next
      case ne: False
      then have "drop k xs \<noteq> []" by auto
      then have "length (take k xs) = k" by simp
      then show ?thesis using 1 False ne by (auto simp: chunks_of_step)
    qed
  qed
qed

lemma bodies_entries_from: "map MessageBody (entries_from c urls) = map URL urls"
  by (induction urls arbitrary: c) (simp_all add: new_entry_def)

lemma length_entries_from [simp]: "length (entries_from c urls) = length urls"
  by (induction urls arbitrary: c) simp_all

lemma emit_messageCount: "emit ev (w\<lparr>messageCount := c\<rparr>) = (emit ev w)\<lparr>messageCount := c\<rparr>"
  by (simp add: emit_def)

lemma time_Sleep_messageCount:
  "time_Sleep d (w\<lparr>messageCount := c\<rparr>) = (time_Sleep d w)\<lparr>messageCount := c\<rparr>"
  by (simp add: time_Sleep_def emit_def)

lemma Update_processed_messageCount:
  "Update_processed e u (w\<lparr>messageCount := c\<rparr>) = (Update_processed e u w)\<lparr>messageCount := c\<rparr>"
  by (simp add: Update_processed_def emit_def Let_def)

lemma SendMessageBatch_messageCount:
  "SendMessageBatch e batch (w\<lparr>messageCount := c\<rparr>) =
     apsnd (\<lambda>v. v\<lparr>messageCount := c\<rparr>) (SendMessageBatch e batch w)"
  by (simp add: SendMessageBatch_def emit_def ctx_Done_def Let_def cong: option.case_cong)

lemma sendBatch_from_messageCount:
  "sendBatch_from e a batch (w\<lparr>messageCount := c\<rparr>) =
     apsnd (\<lambda>v. v\<lparr>messageCount := c\<rparr>) (sendBatch_from e a batch w)"
proof (induction e a batch w rule: sendBatch_from.induct)
  case (1 e attempt batch w)
  show ?case
  proof (cases "attempt < RetryAttempts")
    case False
    then show ?thesis
      by (simp add: sendBatch_from.simps [of e attempt])
  next
    case True
    show ?thesis
    proof (cases "SendMessageBatch e batch w")
      case (Pair r w1)
      show ?thesis
      proof (cases r)
        case None
        with Pair True show ?thesis
          by (simp add: sendBatch_from.simps [of e attempt] SendMessageBatch_messageCount)
      next
        case (Some err)
        have "sendBatch_from e (attempt + 1) batch
                ((time_Sleep (RetryBackoff * (attempt + 1)) w1)\<lparr>messageCount := c\<rparr>) =
              apsnd (\<lambda>v. v\<lparr>messageCount := c\<rparr>)
                (sendBatch_from e (attempt + 1) batch (time_Sleep (RetryBackoff * (attempt + 1)) w1))"
          using "1.IH" [OF True Pair [symmetric] Some] .
        with Pair True Some show ?thesis
          by (simp add: sendBatch_from.simps [of e attempt] SendMessageBatch_messageCount
              time_Sleep_messageCount)
      qed
    qed
  qed
qed

lemma fold_Update_messageCount:
  "fold (\<lambda>entry. Update_processed e (MessageBody entry)) batch (w\<lparr>messageCount := c\<rparr>) =
     (fold (\<lambda>entry. Update_processed e (MessageBody entry)) batch w)\<lparr>messageCount := c\<rparr>"
  by (induction batch arbitrary: w) (simp_all add: Update_processed_messageCount)

lemma send_and_update_messageCount:
  "send_and_update e batch (w\<lparr>messageCount := c\<rparr>) = (send_and_update e batch w)\<lparr>messageCount := c\<rparr>"
  by (cases "sendBatch_from e 0 batch w")
    (simp add: send_and_update_def sendBatch_def sendBatch_from_messageCount
      fold_Update_messageCount split: option.splits)

lemma fold_send_and_update_messageCount:
  "fold (send_and_update e) cs (w\<lparr>messageCount := c\<rparr>) =
     (fold (send_and_update e) cs w)\<lparr>messageCount := c\<rparr>"
  by (induction cs arbitrary: w) (simp_all add: send_and_update_messageCount)

lemma range_urls_chunks:
  "length batch < BatchSize \<Longrightarrow> i + length urls = n \<Longrightarrow> (urls = [] \<longrightarrow> batch = []) \<Longrightarrow>
   range_urls e n i urls batch w =
     fold (send_and_update e)
       (chunks_of BatchSize (batch @ entries_from (messageCount w) urls))
       (w\<lparr>messageCount := messageCount w + of_nat (length urls)\<rparr>)"
proof (induction urls arbitrary: i batch w)
  case Nil
  then show ?case by simp
next
  case (Cons url rest)
  let ?c = "messageCount w + 1"
  let ?w1 = "w\<lparr>messageCount := ?c\<rparr>"
  let ?batch1 = "batch @ [new_entry ?c url]"
  have last_iff: "(int i = int n - 1) = (rest = [])"
    using Cons.prems(2) by auto
  show ?case
  proof (cases "length ?batch1 = BatchSize \<or> rest = []")
    case True
    have step: "range_urls e n i (url # rest) batch w =
                range_urls e n (i + 1) rest [] (send_and_update e ?batch1 ?w1)"
      using True last_iff by (simp add: Let_def)
    have ih: "range_urls e n (i + 1) rest [] (send_and_update e ?batch1 ?w1) =
        fold (send_and_update e)
          (chunks_of BatchSize ([] @ entries_from (messageCount (send_and_update e ?batch1 ?w1)) rest))
          ((send_and_update e ?batch1 ?w1)
             \<lparr>messageCount := messageCount (send_and_update e ?batch1 ?w1) + of_nat (length rest)\<rparr>)"
      by (rule Cons.IH) (use Cons.prems in \<open>auto simp: BatchSize_def\<close>)
    have mc: "messageCount (send_and_update e ?batch1 ?w1) = ?c"
      using send_and_update_messageCount [where e = e and batch = ?batch1 and w = w and c = ?c] by simp
    have split: "chunks_of BatchSize (batch @ entries_from (messageCount w) (url # rest)) =
                 ?batch1 # chunks_of BatchSize (entries_from ?c rest)"
    proof (cases "length ?batch1 = BatchSize")
      case True
      then show ?thesis
        using chunks_of_full [of ?batch1 "entries_from ?c rest"] by simp
    next
      case False
      with \<open>length ?batch1 = BatchSize \<or> rest = []\<close> have "rest = []" by simp
      moreover have "length ?batch1 \<le> BatchSize" using Cons.prems(1) by simp
      ultimately show ?thesis by (simp add: chunks_of_short)
    qed
    let ?X = "messageCount w + of_nat (length (url # rest))"
    have X: "?c + of_nat (length rest) = ?X" by simp
    have W: "(send_and_update e ?batch1 ?w1)\<lparr>messageCount := ?X\<rparr> =
             send_and_update e ?batch1 (w\<lparr>messageCount := ?X\<rparr>)"
      by (simp add: send_and_update_messageCount)
    have "range_urls e n i (url # rest) batch w =
          fold (send_and_update e) (chunks_of BatchSize (entries_from ?c rest))
            ((send_and_update e ?batch1 ?w1)\<lparr>messageCount := ?c + of_nat (length rest)\<rparr>)"
      using step ih mc by simp
    also have "\<dots> = fold (send_and_update e) (chunks_of BatchSize (entries_from ?c rest))
            (send_and_update e ?batch1 (w\<lparr>messageCount := ?X\<rparr>))"
      unfolding X W ..
    also have "\<dots> = fold (send_and_update e) (?batch1 # chunks_of BatchSize (entries_from ?c rest))
            (w\<lparr>messageCount := ?X\<rparr>)"
      by simp
    finally show ?thesis
      unfolding split .
  next
    case False
    then have ne: "rest \<noteq> []" and lt: "length ?batch1 < BatchSize"
      using Cons.prems(1) by auto
    have step: "range_urls e n i (url # rest) batch w = range_urls e n (i + 1) rest ?batch1 ?w1"
      using False last_iff by (simp add: Let_def)
    have ih: "range_urls e n (i + 1) rest ?batch1 ?w1 =
        fold (send_and_update e)
          (chunks_of BatchSize (?batch1 @ entries_from (messageCount ?w1) rest))
          (?w1\<lparr>messageCount := messageCount ?w1 + of_nat (length rest)\<rparr>)"
      by (rule Cons.IH) (use Cons.prems lt ne in auto)
    have A: "?batch1 @ entries_from (messageCount ?w1) rest =
          batch @ entries_from (messageCount w) (url # rest)"
      by simp
    have B: "?w1\<lparr>messageCount := messageCount ?w1 + of_nat (length rest)\<rparr> =
          w\<lparr>messageCount := messageCount w + of_nat (length (url # rest))\<rparr>"
      by simp
    show ?thesis
      unfolding step ih A B ..
  qed
qed

lemma accepted_bodies_append [simp]:
  "accepted_bodies (xs @ ys) = accepted_bodies xs @ accepted_bodies ys"
  by (simp add: accepted_bodies_def)

lemma updated_urls_append [simp]: "updated_urls (xs @ ys) = updated_urls xs @ updated_urls ys"
  by (simp add: updated_urls_def)

lemma accepted_bodies_Nil [simp]: "accepted_bodies [] = []"
  by (simp add: accepted_bodies_def)

lemma updated_urls_Nil [simp]: "updated_urls [] = []"
  by (simp add: updated_urls_def)

lemma accepted_bodies_Cons [simp]:
  "accepted_bodies ((t, ev) # tr) = accepted_of ev @ accepted_bodies tr"
  by (simp add: accepted_bodies_def)

lemma updated_urls_Cons [simp]: "updated_urls ((t, ev) # tr) = updated_of ev @ updated_urls tr"
  by (simp add: updated_urls_def)

lemma event_observations [simp]:
  "accepted_of Ev_Find = []" "accepted_of (Ev_Sleep d) = []" "accepted_of (Ev_Update u ok) = []"
  "accepted_of (Ev_SendMessageBatch batch True) = map MessageBody batch"
  "accepted_of (Ev_SendMessageBatch batch False) = []"
  "updated_of Ev_Find = []" "updated_of (Ev_Sleep d) = []" "updated_of (Ev_Update u ok) = [u]"
  "updated_of (Ev_SendMessageBatch batch ok) = []"
  "applied_of Ev_Find = []" "applied_of (Ev_Sleep d) = []" "applied_of (Ev_Update u True) = [u]"
  "applied_of (Ev_Update u False) = []" "applied_of (Ev_SendMessageBatch batch ok) = []"
  by (simp_all add: accepted_of_def updated_of_def applied_of_def)

lemma applied_urls_append [simp]: "applied_urls (xs @ ys) = applied_urls xs @ applied_urls ys"
  by (simp add: applied_urls_def)

lemma applied_urls_Nil [simp]: "applied_urls [] = []"
  by (simp add: applied_urls_def)

lemma applied_urls_Cons [simp]: "applied_urls ((t, ev) # tr) = applied_of ev @ applied_urls tr"
  by (simp add: applied_urls_def)

lemma applied_of_subset: "set (applied_of ev) \<subseteq> set (updated_of ev)"
  by (cases ev) (auto simp: applied_of_def updated_of_def)

lemma applied_urls_subset: "set (applied_urls tr) \<subseteq> set (updated_urls tr)"
proof (induction tr)
  case Nil
  show ?case by simp
next
  case (Cons x tr)
  obtain t ev where x: "x = (t, ev)" by (cases x)
  show ?case unfolding x using Cons.IH applied_of_subset [of ev] by auto
qed

lemma applied_urls_none: "updated_urls tr = [] \<Longrightarrow> applied_urls tr = []"
  using applied_urls_subset [of tr] by simp

lemma follow_mono:
  "updates_follow_acceptance A tr \<Longrightarrow> A \<subseteq> B \<Longrightarrow> updates_follow_acceptance B tr"
proof (induction tr arbitrary: A B)
  case Nil
  then show ?case by simp
next
  case (Cons x tr)
  obtain t ev where x: "x = (t, ev)" by (cases x)
  have "updates_follow_acceptance (B \<union> set (accepted_of ev)) tr"
    by (rule Cons.IH [of "A \<union> set (accepted_of ev)"]) (use Cons.prems x in auto)
  then show ?case using Cons.prems x by auto
qed

lemma follow_append:
  "updates_follow_acceptance A (xs @ ys) =
     (updates_follow_acceptance A xs \<and>
      updates_follow_acceptance (A \<union> set (accepted_bodies xs)) ys)"
proof (induction xs arbitrary: A)
  case Nil
  then show ?case by simp
next
  case (Cons x xs)
  obtain t ev where x: "x = (t, ev)" by (cases x)
  show ?case unfolding x by (simp add: Cons.IH Un_assoc)
qed

lemma follow_subset: "set (updated_urls tr) \<subseteq> A \<Longrightarrow> updates_follow_acceptance A tr"
proof (induction tr arbitrary: A)
  case Nil
  then show ?case by simp
next
  case (Cons x tr)
  obtain t ev where x: "x = (t, ev)" by (cases x)
  have "updates_follow_acceptance (A \<union> set (accepted_of ev)) tr"
    by (rule Cons.IH) (use Cons.prems x in auto)
  then show ?case using Cons.prems x by simp
qed

lemma mark_urls_empty [simp]: "mark_urls {} rows = rows"
  by (simp add: mark_urls_def)

lemma mark_urls_twice: "mark_urls B (mark_urls A rows) = mark_urls (A \<union> B) rows"
  by (induction rows) (auto simp: mark_urls_def)

lemma world_fields [simp]:
  "trace (emit ev w) = trace w @ [(clock w, ev)]"
  "clock (emit ev w) = clock w"
  "urls_table (emit ev w) = urls_table w"
  "sends (emit ev w) = sends w"
  "finds (emit ev w) = finds w"
  "updates (emit ev w) = updates w"
  "messageCount (emit ev w) = messageCount w"
  "trace (time_Sleep d w) = trace w @ [(clock w, Ev_Sleep d)]"
  "clock (time_Sleep d w) = clock w + d"
  "urls_table (time_Sleep d w) = urls_table w"
  "sends (time_Sleep d w) = sends w"
  "finds (time_Sleep d w) = finds w"
  "updates (time_Sleep d w) = updates w"
  "messageCount (time_Sleep d w) = messageCount w"
  "trace (record_send batch ok w) = trace w @ [(clock w, Ev_SendMessageBatch batch ok)]"
  "clock (record_send batch ok w) = clock w"
  "urls_table (record_send batch ok w) = urls_table w"
  "sends (record_send batch ok w) = sends w + 1"
  "finds (record_send batch ok w) = finds w"
  "updates (record_send batch ok w) = updates w"
  "messageCount (record_send batch ok w) = messageCount w"
  by (simp_all add: emit_def time_Sleep_def record_send_def)

lemma Update_processed_fields [simp]:
  "trace (Update_processed e u w) =
     trace w @ [(clock w, Ev_Update u (\<not> Update_fails e (updates w)))]"
  "clock (Update_processed e u w) = clock w"
  "urls_table (Update_processed e u w) =
     mark_urls (if Update_fails e (updates w) then {} else {u}) (urls_table w)"
  "sends (Update_processed e u w) = sends w"
  "finds (Update_processed e u w) = finds w"
  "updates (Update_processed e u w) = updates w + 1"
  "messageCount (Update_processed e u w) = messageCount w"
  by (simp_all add: emit_def Update_processed_def mark_urls_def Let_def)

lemma sendBatch_from_effect:
  "\<exists>new. trace (snd (sendBatch_from e a batch w)) = trace w @ new \<and>
         updated_urls new = [] \<and>
         accepted_bodies new =
           (if fst (sendBatch_from e a batch w) = None then map MessageBody batch else []) \<and>
         urls_table (snd (sendBatch_from e a batch w)) = urls_table w \<and>
         updates (snd (sendBatch_from e a batch w)) = updates w \<and>
         clock w \<le> clock (snd (sendBatch_from e a batch w))"
proof (induction e a batch w rule: sendBatch_from.induct)
  case (1 e attempt batch w)
  show ?case
  proof (cases "attempt < RetryAttempts")
    case False
    then show ?thesis by (simp add: sendBatch_from.simps [of e attempt])
  next
    case True
    show ?thesis
    proof (cases "fst (SendMessageBatch e batch w) = None")
      case ok: True
      have "sendBatch_from e attempt batch w = (None, record_send batch True w)"
        using True SendMessageBatch_accepted [OF ok]
        by (simp add: sendBatch_from.simps [of e attempt])
      then show ?thesis by simp
    next
      case failed: False
      let ?w1 = "record_send batch False w"
      let ?w2 = "time_Sleep (RetryBackoff * (attempt + 1)) ?w1"
      have smb: "SendMessageBatch e batch w = (Some SendError, ?w1)"
        using failed by (rule SendMessageBatch_failed)
      have step: "sendBatch_from e attempt batch w = sendBatch_from e (attempt + 1) batch ?w2"
        using True smb by (simp add: sendBatch_from.simps [of e attempt])
      obtain new where new:
        "trace (snd (sendBatch_from e (attempt + 1) batch ?w2)) = trace ?w2 @ new"
        "updated_urls new = []"
        "accepted_bodies new =
           (if fst (sendBatch_from e (attempt + 1) batch ?w2) = None then map MessageBody batch else [])"
        "urls_table (snd (sendBatch_from e (attempt + 1) batch ?w2)) = urls_table ?w2"
        "updates (snd (sendBatch_from e (attempt + 1) batch ?w2)) = updates ?w2"
        "clock ?w2 \<le> clock (snd (sendBatch_from e (attempt + 1) batch ?w2))"
        using "1.IH" [OF True smb [symmetric] refl] by blast
      let ?new = "[(clock w, Ev_SendMessageBatch batch False),
                   (clock w, Ev_Sleep (RetryBackoff * (attempt + 1)))] @ new"
      have "trace (snd (sendBatch_from e attempt batch w)) = trace w @ ?new"
        unfolding step new(1) by simp
      moreover have "updated_urls ?new = []" using new(2) by simp
      moreover have "accepted_bodies ?new =
           (if fst (sendBatch_from e attempt batch w) = None then map MessageBody batch else [])"
        unfolding step using new(3) by simp
      moreover have "urls_table (snd (sendBatch_from e attempt batch w)) = urls_table w"
        unfolding step new(4) by simp
      moreover have "updates (snd (sendBatch_from e attempt batch w)) = updates w"
        unfolding step new(5) by simp
      moreover have "clock w \<le> clock (snd (sendBatch_from e attempt batch w))"
        unfolding step using new(6) by simp
      ultimately show ?thesis by blast
    qed
  qed
qed

lemma applied_of_Update: "applied_of (Ev_Update u ok) = (if ok then [u] else [])"
  by (simp add: applied_of_def)

lemma fold_Update_effect:
  "\<exists>ups. trace (fold (\<lambda>entry. Update_processed e (MessageBody entry)) batch w) = trace w @ ups \<and>
         updated_urls ups = map MessageBody batch \<and>
         accepted_bodies ups = [] \<and>
         applied_urls ups = executed_updates e (updates w) batch \<and>
         urls_table (fold (\<lambda>entry. Update_processed e (MessageBody entry)) batch w) =
           mark_urls (set (executed_updates e (updates w) batch)) (urls_table w) \<and>
         clock (fold (\<lambda>entry. Update_processed e (MessageBody entry)) batch w) = clock w \<and>
         updates (fold (\<lambda>entry. Update_processed e (MessageBody entry)) batch w) =
           updates w + length batch"
proof (induction batch arbitrary: w)
  case Nil
  show ?case by simp
next
  case (Cons x batch)
  let ?F = "\<lambda>entry. Update_processed e (MessageBody entry)"
  let ?w1 = "Update_processed e (MessageBody x) w"
  obtain ups where ups:
    "trace (fold ?F batch ?w1) = trace ?w1 @ ups"
    "updated_urls ups = map MessageBody batch"
    "accepted_bodies ups = []"
    "applied_urls ups = executed_updates e (updates ?w1) batch"
    "urls_table (fold ?F batch ?w1) =
       mark_urls (set (executed_updates e (updates ?w1) batch)) (urls_table ?w1)"
    "clock (fold ?F batch ?w1) = clock ?w1"
    "updates (fold ?F batch ?w1) = updates ?w1 + length batch"
    using Cons.IH [of ?w1] by blast
  let ?ups = "(clock w, Ev_Update (MessageBody x) (\<not> Update_fails e (updates w))) # ups"
  have "trace (fold ?F (x # batch) w) = trace w @ ?ups"
    using ups(1) by simp
  moreover have "updated_urls ?ups = map MessageBody (x # batch)"
    using ups(2) by simp
  moreover have "accepted_bodies ?ups = []"
    using ups(3) by simp
  moreover have "applied_urls ?ups = executed_updates e (updates w) (x # batch)"
    using ups(4) by (simp add: applied_of_Update)
  moreover have "urls_table (fold ?F (x # batch) w) =
      mark_urls (set (executed_updates e (updates w) (x # batch))) (urls_table w)"
    using ups(5) by (simp add: mark_urls_twice)
  moreover have "clock (fold ?F (x # batch) w) = clock w"
    using ups(6) by simp
  moreover have "updates (fold ?F (x # batch) w) = updates w + length (x # batch)"
    using ups(7) by simp
  ultimately show ?case by blast
qed

lemma marks_by_acceptanceI:
  "trace w' = trace w @ new \<Longrightarrow> updated_urls new = accepted_bodies new \<Longrightarrow>
   updates_follow_acceptance {} new \<Longrightarrow>
   urls_table w' = mark_urls (set (applied_urls new)) (urls_table w) \<Longrightarrow>
   clock w \<le> clock w' \<Longrightarrow> marks_by_acceptance w w'"
  by (simp add: marks_by_acceptance_def tick_events_def)

lemma marks_by_acceptance_refl: "marks_by_acceptance w w"
  by (rule marks_by_acceptanceI [where new = "[]"]) simp_all

lemma marks_by_acceptance_trans:
  assumes "marks_by_acceptance w w'" and "marks_by_acceptance w' w''"
  shows "marks_by_acceptance w w''"
proof -
  let ?n1 = "tick_events w w'" and ?n2 = "tick_events w' w''"
  have 1: "trace w' = trace w @ ?n1" "updated_urls ?n1 = accepted_bodies ?n1"
    "updates_follow_acceptance {} ?n1"
    "urls_table w' = mark_urls (set (applied_urls ?n1)) (urls_table w)" "clock w \<le> clock w'"
    using assms(1) by (simp_all add: marks_by_acceptance_def Let_def)
  have 2: "trace w'' = trace w' @ ?n2" "updated_urls ?n2 = accepted_bodies ?n2"
    "updates_follow_acceptance {} ?n2"
    "urls_table w'' = mark_urls (set (applied_urls ?n2)) (urls_table w')" "clock w' \<le> clock w''"
    using assms(2) by (simp_all add: marks_by_acceptance_def Let_def)
  show ?thesis
  proof (rule marks_by_acceptanceI [where new = "?n1 @ ?n2"])
    show "trace w'' = trace w @ ?n1 @ ?n2" using 1(1) 2(1) by simp
    show "updated_urls (?n1 @ ?n2) = accepted_bodies (?n1 @ ?n2)" using 1(2) 2(2) by simp
    show "updates_follow_acceptance {} (?n1 @ ?n2)"
      using 1(3) follow_mono [OF 2(3)] by (simp add: follow_append)
    show "urls_table w'' = mark_urls (set (applied_urls (?n1 @ ?n2))) (urls_table w)"
      unfolding 2(4) 1(4) by (simp add: mark_urls_twice)
    show "clock w \<le> clock w''" using 1(5) 2(5) by simp
  qed
qed

lemma send_and_update_marks: "marks_by_acceptance w (send_and_update e batch w)"
proof -
  obtain r w1 where sb: "sendBatch_from e 0 batch w = (r, w1)"
    by (cases "sendBatch_from e 0 batch w")
  obtain new where new: "trace w1 = trace w @ new" "updated_urls new = []"
    "accepted_bodies new = (if r = None then map MessageBody batch else [])"
    "urls_table w1 = urls_table w" "clock w \<le> clock w1"
    using sendBatch_from_effect [of e 0 batch w] sb by auto
  have none: "applied_urls new = []" using new(2) by (rule applied_urls_none)
  show ?thesis
  proof (cases r)
    case (Some err)
    then have "send_and_update e batch w = w1"
      using sb by (simp add: send_and_update_def sendBatch_def)
    moreover have "marks_by_acceptance w w1"
      by (rule marks_by_acceptanceI [where new = new])
        (use new none Some in \<open>simp_all add: follow_subset\<close>)
    ultimately show ?thesis by simp
  next
    case None
    let ?w2 = "fold (\<lambda>entry. Update_processed e (MessageBody entry)) batch w1"
    have eq: "send_and_update e batch w = ?w2"
      using sb None by (simp add: send_and_update_def sendBatch_def)
    obtain ups where f: "trace ?w2 = trace w1 @ ups"
      "updated_urls ups = map MessageBody batch"
      "accepted_bodies ups = []"
      "urls_table ?w2 = mark_urls (set (applied_urls ups)) (urls_table w1)"
      "clock ?w2 = clock w1"
      using fold_Update_effect [of e batch w1] by auto
    have "marks_by_acceptance w ?w2"
    proof (rule marks_by_acceptanceI [where new = "new @ ups"])
      show "trace ?w2 = trace w @ new @ ups" using f(1) new(1) by simp
      show "updated_urls (new @ ups) = accepted_bodies (new @ ups)"
        using new(2,3) f(2,3) None by simp
      show "updates_follow_acceptance {} (new @ ups)"
        using new(2,3) f(2) None by (simp add: follow_append follow_subset)
      show "urls_table ?w2 = mark_urls (set (applied_urls (new @ ups))) (urls_table w)"
        using f(4) new(4) none by simp
      show "clock w \<le> clock ?w2" using f(5) new(5) by simp
    qed
    then show ?thesis using eq by simp
  qed
qed

lemma fold_send_and_update_marks: "marks_by_acceptance w (fold (send_and_update e) cs w)"
proof (induction cs arbitrary: w)
  case Nil
  then show ?case by (simp add: marks_by_acceptance_refl)
next
  case (Cons c cs)
  show ?case
    using marks_by_acceptance_trans [OF send_and_update_marks Cons.IH] by simp
qed

declare dec_digits.simps [simp del]

lemma Find_unprocessed_fields:
  "Find_unprocessed e w = (r, w1) \<Longrightarrow>
   w1 = (emit Ev_Find w)\<lparr>finds := finds w + 1\<rparr>"
  by (auto simp: Find_unprocessed_def Let_def split: if_splits)

lemma processURLs_chunks:
  assumes "Find_unprocessed e w = (Inr urls, w1)"
  shows "processURLs e w =
     fold (send_and_update e) (chunks_of BatchSize (entries_from (messageCount w) urls))
       (w1\<lparr>messageCount := messageCount w + of_nat (length urls)\<rparr>)"
proof (cases "urls = []")
  case True
  have "messageCount w1 = messageCount w"
    using Find_unprocessed_fields [OF assms] by simp
  then have "w1\<lparr>messageCount := messageCount w\<rparr> = w1" by simp
  then show ?thesis using assms True by (simp add: processURLs_def)
next
  case False
  have mc: "messageCount w1 = messageCount w"
    using Find_unprocessed_fields [OF assms] by simp
  have "range_urls e (length urls) 0 urls [] w1 =
        fold (send_and_update e) (chunks_of BatchSize ([] @ entries_from (messageCount w1) urls))
          (w1\<lparr>messageCount := messageCount w1 + of_nat (length urls)\<rparr>)"
    by (rule range_urls_chunks) (simp_all add: BatchSize_def False)
  then show ?thesis using assms False mc by (simp add: processURLs_def)
qed

lemma SendMessageBatch_table:
  "SendMessageBatch e batch (w\<lparr>urls_table := t\<rparr>) =
     apsnd (\<lambda>v. v\<lparr>urls_table := t\<rparr>) (SendMessageBatch e batch w)"
  by (simp add: SendMessageBatch_def emit_def ctx_Done_def Let_def cong: option.case_cong)

lemma time_Sleep_table: "time_Sleep d (w\<lparr>urls_table := t\<rparr>) = (time_Sleep d w)\<lparr>urls_table := t\<rparr>"
  by (simp add: time_Sleep_def emit_def)

lemma sendBatch_from_table:
  "sendBatch_from e a batch (w\<lparr>urls_table := t\<rparr>) =
     apsnd (\<lambda>v. v\<lparr>urls_table := t\<rparr>) (sendBatch_from e a batch w)"
proof (induction e a batch w rule: sendBatch_from.induct)
  case (1 e attempt batch w)
  show ?case
  proof (cases "attempt < RetryAttempts")
    case False
    then show ?thesis
      by (simp add: sendBatch_from.simps [of e attempt])
  next
    case True
    show ?thesis
    proof (cases "SendMessageBatch e batch w")
      case (Pair r w1)
      show ?thesis
      proof (cases r)
        case None
        with Pair True show ?thesis
          by (simp add: sendBatch_from.simps [of e attempt] SendMessageBatch_table)
      next
        case (Some err)
        have "sendBatch_from e (attempt + 1) batch
                ((time_Sleep (RetryBackoff * (attempt + 1)) w1)\<lparr>urls_table := t\<rparr>) =
              apsnd (\<lambda>v. v\<lparr>urls_table := t\<rparr>)
                (sendBatch_from e (attempt + 1) batch (time_Sleep (RetryBackoff * (attempt + 1)) w1))"
          using "1.IH" [OF True Pair [symmetric] Some] .
        with Pair True Some show ?thesis
          by (simp add: sendBatch_from.simps [of e attempt] SendMessageBatch_table
              time_Sleep_table)
      qed
    qed
  qed
qed

lemma Update_processed_table:
  "Update_processed e u (w\<lparr>urls_table := t\<rparr>) =
     (Update_processed e u w)\<lparr>urls_table := mark_urls (if Update_fails e (updates w) then {} else {u}) t\<rparr>"
  by (simp add: Update_processed_def emit_def mark_urls_def Let_def)

lemma fold_Update_table:
  "\<exists>t'. fold (\<lambda>entry. Update_processed e (MessageBody entry)) batch (w\<lparr>urls_table := t\<rparr>) =
     (fold (\<lambda>entry. Update_processed e (MessageBody entry)) batch w)\<lparr>urls_table := t'\<rparr>"
proof (induction batch arbitrary: w t)
  case Nil
  show ?case by auto
next
  case (Cons x batch)
  show ?case
    by (simp only: fold_simps comp_apply Update_processed_table) (rule Cons.IH)
qed

lemma send_and_update_table:
  "\<exists>t'. send_and_update e batch (w\<lparr>urls_table := t\<rparr>) = (send_and_update e batch w)\<lparr>urls_table := t'\<rparr>"
proof (cases "sendBatch_from e 0 batch w")
  case (Pair r w1)
  show ?thesis
  proof (cases r)
    case None
    then show ?thesis
      using Pair fold_Update_table [where e = e and batch = batch and w = w1 and t = t]
      by (simp add: send_and_update_def sendBatch_def sendBatch_from_table)
  next
    case (Some err)
    then show ?thesis
      using Pair by (auto simp: send_and_update_def sendBatch_def sendBatch_from_table)
  qed
qed

lemma fold_send_and_update_table:
  "\<exists>t'. fold (send_and_update e) cs (w\<lparr>urls_table := t\<rparr>) =
     (fold (send_and_update e) cs w)\<lparr>urls_table := t'\<rparr>"
proof (induction cs arbitrary: w t)
  case Nil
  show ?case by auto
next
  case (Cons c cs)
  obtain t1 where eq: "send_and_update e c (w\<lparr>urls_table := t\<rparr>) = (send_and_update e c w)\<lparr>urls_table := t1\<rparr>"
    using send_and_update_table by blast
  show ?case
    by (simp only: fold_simps comp_apply eq) (rule Cons.IH)
qed

lemma trace_without_table:
  "trace (fold (send_and_update e) cs (w\<lparr>urls_table := t\<rparr>)) = trace (fold (send_and_update e) cs w)"
proof -
  obtain t' where "fold (send_and_update e) cs (w\<lparr>urls_table := t\<rparr>) =
     (fold (send_and_update e) cs w)\<lparr>urls_table := t'\<rparr>"
    using fold_send_and_update_table by blast
  then show ?thesis by simp
qed

lemma clock_without_table:
  "clock (fold (send_and_update e) cs (w\<lparr>urls_table := t\<rparr>)) = clock (fold (send_and_update e) cs w)"
proof -
  obtain t' where "fold (send_and_update e) cs (w\<lparr>urls_table := t\<rparr>) =
     (fold (send_and_update e) cs w)\<lparr>urls_table := t'\<rparr>"
    using fold_send_and_update_table by blast
  then show ?thesis by simp
qed

lemma processURLs_marks: "marks_by_acceptance w (processURLs e w)"
proof (cases "Find_unprocessed e w")
  case (Pair r w1)
  have w1: "w1 = (emit Ev_Find w)\<lparr>finds := finds w + 1\<rparr>"
    using Find_unprocessed_fields [OF Pair] .
  have first: "marks_by_acceptance w (w1\<lparr>messageCount := c\<rparr>)" for c
    by (rule marks_by_acceptanceI [where new = "[(clock w, Ev_Find)]"]) (simp_all add: w1)
  show ?thesis
  proof (cases r)
    case (Inl err)
    have "processURLs e w = w1" using Pair Inl by (simp add: processURLs_def)
    moreover have "w1\<lparr>messageCount := messageCount w1\<rparr> = w1" by simp
    ultimately show ?thesis using first [of "messageCount w1"] by simp
  next
    case (Inr urls)
    show ?thesis
      unfolding processURLs_chunks [OF Pair [unfolded Inr]]
      by (rule marks_by_acceptance_trans [OF first fold_send_and_update_marks])
  qed
qed

lemma clock_processURLs: "clock w \<le> clock (processURLs e w)"
  using processURLs_marks [of w e] by (simp add: marks_by_acceptance_def Let_def)

lemma clock_ticks: "clock w + k * PollingInterval \<le> clock (ticks e k w)"
proof (induction k arbitrary: w)
  case 0
  show ?case by simp
next
  case (Suc k)
  have "clock w + PollingInterval \<le> clock (time_Sleep PollingInterval (processURLs e w))"
    using clock_processURLs [of w e] by simp
  then show ?case
    using Suc.IH [of "time_Sleep PollingInterval (processURLs e w)"] by simp
qed

lemma producer_ticks:
  "(\<And>j. j < k \<Longrightarrow> \<not> ctx_Done e (ticks e j w)) \<Longrightarrow> producer e w = producer e (ticks e k w)"
proof (induction k arbitrary: w)
  case 0
  show ?case by simp
next
  case (Suc k)
  let ?w = "time_Sleep PollingInterval (processURLs e w)"
  have "\<not> ctx_Done e w" using Suc.prems [of 0] by simp
  then have "producer e w = producer e ?w" by (subst producer.simps) simp
  also have "\<dots> = producer e (ticks e k ?w)"
  proof (rule Suc.IH)
    fix j assume "j < k"
    then show "\<not> ctx_Done e (ticks e j ?w)" using Suc.prems [of "Suc j"] by simp
  qed
  finally show ?case by simp
qed

lemma retry_script_end:
  "retry_script batch k (Suc j) w =
     time_Sleep (RetryBackoff * (k + j)) (record_send batch False (retry_script batch k j w))"
proof (induction j arbitrary: k w)
  case 0
  show ?case by simp
next
  case (Suc j)
  let ?w = "time_Sleep (RetryBackoff * k) (record_send batch False w)"
  have "retry_script batch k (Suc (Suc j)) w = retry_script batch (k + 1) (Suc j) ?w"
    by (simp only: retry_script.simps)
  also have "\<dots> = time_Sleep (RetryBackoff * (k + 1 + j))
                       (record_send batch False (retry_script batch (k + 1) j ?w))"
    by (rule Suc.IH)
  also have "retry_script batch (k + 1) j ?w = retry_script batch k (Suc j) w"
    by (simp only: retry_script.simps)
  finally show ?case by (simp only: add_Suc_right add_Suc add_0_right One_nat_def)
qed

lemma sendBatch_table_unchanged: "urls_table (snd (sendBatch e batch w)) = urls_table w"
  using sendBatch_from_effect [of e 0 batch w] by (auto simp: sendBatch_def)

lemma sendBatch_from_sends:
  "sends (snd (sendBatch_from e a batch w)) \<le> sends w + (RetryAttempts - a)"
proof (induction e a batch w rule: sendBatch_from.induct)
  case (1 e attempt batch w)
  show ?case
  proof (cases "attempt < RetryAttempts")
    case False
    then show ?thesis by (simp add: sendBatch_from.simps [of e attempt])
  next
    case True
    show ?thesis
    proof (cases "fst (SendMessageBatch e batch w) = None")
      case ok: True
      have "sendBatch_from e attempt batch w = (None, record_send batch True w)"
        using True SendMessageBatch_accepted [OF ok]
        by (simp add: sendBatch_from.simps [of e attempt])
      then show ?thesis using True by simp
    next
      case failed: False
      let ?w2 = "time_Sleep (RetryBackoff * (attempt + 1)) (record_send batch False w)"
      have smb: "SendMessageBatch e batch w = (Some SendError, record_send batch False w)"
        using failed by (rule SendMessageBatch_failed)
      have step: "sendBatch_from e attempt batch w = sendBatch_from e (attempt + 1) batch ?w2"
        using True smb by (simp add: sendBatch_from.simps [of e attempt])
      have "sends (snd (sendBatch_from e (attempt + 1) batch ?w2)) \<le>
            sends ?w2 + (RetryAttempts - (attempt + 1))"
        using "1.IH" [OF True smb [symmetric] refl] .
      then show ?thesis unfolding step using True by simp
    qed
  qed
qed

lemma sendBatch_at_most_RetryAttempts:
  "sends (snd (sendBatch e batch w)) \<le> sends w + RetryAttempts"
  using sendBatch_from_sends [of e 0 batch w] by (simp add: sendBatch_def)

lemma sendBatch_first_event:
  "\<exists>ok rest. trace (snd (sendBatch e batch w)) =
     trace w @ (clock w, Ev_SendMessageBatch batch ok) # rest"
proof (cases "fst (SendMessageBatch e batch w) = None")
  case True
  have "sendBatch e batch w = (None, record_send batch True w)"
    using SendMessageBatch_accepted [OF True]
    by (simp add: sendBatch_def sendBatch_from.simps [of e 0] RetryAttempts_def)
  then show ?thesis by (intro exI [of _ True] exI [of _ "[]"]) simp
next
  case False
  let ?w2 = "time_Sleep (RetryBackoff * (0 + 1)) (record_send batch False w)"
  have "sendBatch e batch w = sendBatch_from e (0 + 1) batch ?w2"
    using SendMessageBatch_failed [OF False]
    by (simp add: sendBatch_def sendBatch_from.simps [of e 0] RetryAttempts_def)
  moreover obtain new where "trace (snd (sendBatch_from e (0 + 1) batch ?w2)) = trace ?w2 @ new"
    using sendBatch_from_effect [of e "0 + 1" batch ?w2] by blast
  ultimately show ?thesis by auto
qed

lemma send_and_update_failed:
  assumes "fst (sendBatch e batch w) \<noteq> None"
  shows "send_and_update e batch w = snd (sendBatch e batch w)"
  using assms by (cases "sendBatch e batch w") (auto simp: send_and_update_def)

lemma send_and_update_accepted:
  assumes "fst (sendBatch e batch w) = None"
  shows "send_and_update e batch w =
     fold (\<lambda>entry. Update_processed e (MessageBody entry)) batch (snd (sendBatch e batch w))"
  using assms by (cases "sendBatch e batch w") (auto simp: send_and_update_def)

lemma send_and_update_first_event:
  "\<exists>ok rest. trace (send_and_update e batch w) =
     trace w @ (clock w, Ev_SendMessageBatch batch ok) # rest"
proof -
  obtain ok rest where t: "trace (snd (sendBatch e batch w)) =
     trace w @ (clock w, Ev_SendMessageBatch batch ok) # rest"
    using sendBatch_first_event by blast
  show ?thesis
  proof (cases "fst (sendBatch e batch w) = None")
    case False
    then show ?thesis using t by (simp add: send_and_update_failed)
  next
    case True
    show ?thesis
      unfolding send_and_update_accepted [OF True]
      using fold_Update_effect [of e batch "snd (sendBatch e batch w)"] t by auto
  qed
qed

lemma sendBatch_updates_unchanged: "updates (snd (sendBatch e batch w)) = updates w"
  using sendBatch_from_effect [of e 0 batch w] by (auto simp: sendBatch_def)

lemma send_and_update_accepted_effect:
  assumes "fst (sendBatch e batch w) = None"
  shows "urls_table (send_and_update e batch w) =
           mark_urls (set (executed_updates e (updates w) batch)) (urls_table w) \<and>
         updated_urls (tick_events (snd (sendBatch e batch w)) (send_and_update e batch w)) =
           map MessageBody batch \<and>
         updated_urls (tick_events w (send_and_update e batch w)) = map MessageBody batch"
proof -
  let ?w1 = "snd (sendBatch e batch w)"
  obtain new where new: "trace ?w1 = trace w @ new" "updated_urls new = []"
    using sendBatch_from_effect [of e 0 batch w] by (auto simp: sendBatch_def)
  obtain ups where ups:
    "trace (send_and_update e batch w) = trace ?w1 @ ups"
    "updated_urls ups = map MessageBody batch"
    "urls_table (send_and_update e batch w) =
       mark_urls (set (executed_updates e (updates ?w1) batch)) (urls_table ?w1)"
    unfolding send_and_update_accepted [OF assms]
    using fold_Update_effect [of e batch ?w1] by auto
  have "tick_events ?w1 (send_and_update e batch w) = ups"
    using ups(1) by (simp add: tick_events_def)
  moreover have "tick_events w (send_and_update e batch w) = new @ ups"
    using ups(1) new(1) by (simp add: tick_events_def)
  ultimately show ?thesis
    using ups(2,3) new(2) by (simp add: sendBatch_table_unchanged sendBatch_updates_unchanged)
qed

lemma mark_urls_processed:
  "r \<in> set (mark_urls A rows) \<Longrightarrow> row_url r \<in> A \<Longrightarrow> row_processed r"
  by (auto simp: mark_urls_def split: if_splits)

lemma mark_urls_nth:
  "i < length rows \<Longrightarrow>
   mark_urls A rows ! i =
     (if row_url (rows ! i) \<in> A then (rows ! i)\<lparr>row_processed := True\<rparr> else rows ! i)"
  by (simp add: mark_urls_def)

lemma executed_updates_subset: "set (executed_updates e k batch) \<subseteq> MessageBody ` set batch"
  by (induction batch arbitrary: k) auto

lemma executed_updates_nth:
  "j < length batch \<Longrightarrow> \<not> Update_fails e (k + j) \<Longrightarrow>
   MessageBody (batch ! j) \<in> set (executed_updates e k batch)"
proof (induction batch arbitrary: k j)
  case Nil
  then show ?case by simp
next
  case (Cons x batch)
  show ?case
  proof (cases j)
    case 0
    then show ?thesis using Cons.prems by simp
  next
    case (Suc i)
    then have "MessageBody (batch ! i) \<in> set (executed_updates e (Suc k) batch)"
      using Cons.prems by (intro Cons.IH) simp_all
    then show ?thesis using Suc by simp
  qed
qed

lemma producer_from_iteration:
  "at_iteration e k w = Some w' \<Longrightarrow> producer e w = producer e w'"
proof (induction k arbitrary: w)
  case 0
  then show ?case by simp
next
  case (Suc k)
  then have n: "\<not> ctx_Done e w"
    and a: "at_iteration e k (time_Sleep PollingInterval (processURLs e w)) = Some w'"
    by (simp_all split: if_splits)
  have "producer e w = producer e (time_Sleep PollingInterval (processURLs e w))"
    using n by (subst producer.simps) simp
  then show ?case using Suc.IH [OF a] by simp
qed

lemma producer_returns_iff:
  "producer e w = Some w' \<longleftrightarrow> (\<exists>k. at_iteration e k w = Some w' \<and> ctx_Done e w')"
proof
  assume p: "producer e w = Some w'"
  then show "\<exists>k. at_iteration e k w = Some w' \<and> ctx_Done e w'"
  proof (induct rule: producer.raw_induct)
    case (1 producer' e w y)
    show ?case
    proof (cases "ctx_Done e w")
      case True
      then have "y = w" using 1 by simp
      then have "at_iteration e 0 w = Some y \<and> ctx_Done e y" using True by simp
      then show ?thesis by blast
    next
      case False
      then have a: "producer' e (time_Sleep PollingInterval (processURLs e w)) = Some y"
        using 1 by simp
      have "producer e w = Some y" using 1 by simp
      then have b: "producer e (time_Sleep PollingInterval (processURLs e w)) = Some y"
        using False by (subst (asm) producer.simps) simp
      obtain k where
        "at_iteration e k (time_Sleep PollingInterval (processURLs e w)) = Some y \<and> ctx_Done e y"
        using 1(1) [OF a b] by blast
      then have "at_iteration e (Suc k) w = Some y \<and> ctx_Done e y" using False by simp
      then show ?thesis by blast
    qed
  qed (rule p)
next
  assume "\<exists>k. at_iteration e k w = Some w' \<and> ctx_Done e w'"
  then obtain k where k: "at_iteration e k w = Some w'" "ctx_Done e w'" by blast
  have "producer e w = producer e w'" using k(1) by (rule producer_from_iteration)
  also have "\<dots> = Some w'" using k(2) by (subst producer.simps) simp
  finally show "producer e w = Some w'" .
qed

lemma processURLs_trace:
  assumes "Find_unprocessed e w = (Inr urls, w1)"
  shows "trace (processURLs e w) =
     trace (fold (send_and_update e) (chunks_of BatchSize (entries_from (messageCount w) urls))
       (w1\<lparr>messageCount := messageCount w + of_nat (length urls), urls_table := []\<rparr>))"
  unfolding processURLs_chunks [OF assms] by (simp add: trace_without_table)

lemma processURLs_clock:
  assumes "Find_unprocessed e w = (Inr urls, w1)"
  shows "clock (processURLs e w) =
     clock (fold (send_and_update e) (chunks_of BatchSize (entries_from (messageCount w) urls))
       (w1\<lparr>messageCount := messageCount w + of_nat (length urls), urls_table := []\<rparr>))"
  unfolding processURLs_chunks [OF assms] by (simp add: clock_without_table)

lemma processURLs_table:
  "urls_table (processURLs e w) =
     mark_urls (set (applied_urls (tick_events w (processURLs e w)))) (urls_table w)"
  using processURLs_marks [of w e] by (simp add: marks_by_acceptance_def Let_def)

lemma Update_processed_failed:
  "Update_fails e (updates w) \<Longrightarrow>
   Update_processed e u w = (emit (Ev_Update u False) w)\<lparr>updates := updates w + 1\<rparr>"
  by (simp add: Update_processed_def Let_def)

lemma Update_processed_executed:
  "\<not> Update_fails e (updates w) \<Longrightarrow>
   Update_processed e u w =
     (emit (Ev_Update u True) w)
       \<lparr>updates := updates w + 1,
        urls_table :=
          map (\<lambda>r. if row_url r = u then r\<lparr>row_processed := True\<rparr> else r) (urls_table w)\<rparr>"
  by (simp add: Update_processed_def Let_def)

lemmas run_defs = send_and_update_def sendBatch_def sendBatch_from.simps SendMessageBatch_def
  emit_def time_Sleep_def Update_processed_failed Update_processed_executed ctx_Done_def
  new_entry_def Sprintf_d_def dec_digits.simps BatchSize_def RetryAttempts_def RetryBackoff_def
  Second_def Let_def chunks_of.simps

lemma Find_shared_url:
  "Find_unprocessed env_first_only world_shared_url =
     (Inr (fetched rows_shared_url), (emit Ev_Find world_shared_url)\<lparr>finds := 1\<rparr>)"
  by (simp add: Find_unprocessed_def fetched_def world_shared_url_def rows_shared_url_def
      pending_rows_def env_first_only_def DatabaseLimit_def emit_def)

lemma trace_shared_url:
  "submissions (trace (processURLs env_first_only world_shared_url)) =
     [(0, [''msg-1'', ''msg-2'', ''msg-3'', ''msg-4'', ''msg-5'', ''msg-6'', ''msg-7'', ''msg-8'',
        ''msg-9'', ''msg-10''], True),
      (0, [''msg-11''], False), (2000000000, [''msg-11''], False), (6000000000, [''msg-11''], False)]"
  unfolding processURLs_trace [OF Find_shared_url]
  by (simp add: run_defs fetched_def world_shared_url_def rows_shared_url_def pending_rows_def
      upt_rec env_first_only_def submissions_def)

lemma applied_shared_url:
  "applied_urls (trace (processURLs env_first_only world_shared_url)) =
     [''u1'', ''u2'', ''u3'', ''u4'', ''u5'', ''u6'', ''u7'', ''u8'', ''u9'', ''u10'']"
  unfolding processURLs_trace [OF Find_shared_url]
  by (simp add: run_defs fetched_def world_shared_url_def rows_shared_url_def pending_rows_def
      upt_rec env_first_only_def)

lemmas send_defs = sendBatch_def sendBatch_from.simps SendMessageBatch_def emit_def time_Sleep_def
  record_send_def ctx_Done_def RetryAttempts_def RetryBackoff_def Second_def Let_def

lemma Find_two:
  "Find_unprocessed env_ok (pending_world 2) =
     (Inr (fetched (pending_rows 2)), (emit Ev_Find (pending_world 2))\<lparr>finds := 1\<rparr>)"
  by (simp add: Find_unprocessed_def fetched_def pending_world_def pending_rows_def env_ok_def
      DatabaseLimit_def emit_def)

lemma Find_two_update_fails:
  "Find_unprocessed env_first_update_fails (pending_world 2) =
     (Inr (fetched (pending_rows 2)), (emit Ev_Find (pending_world 2))\<lparr>finds := 1\<rparr>)"
  by (simp add: Find_unprocessed_def fetched_def pending_world_def pending_rows_def
      env_first_update_fails_def DatabaseLimit_def emit_def)

lemma trace_two_update_fails:
  "submissions (trace (processURLs env_first_update_fails (pending_world 2))) =
     [(0, [''msg-1'', ''msg-2''], True)] \<and>
   applied_urls (trace (processURLs env_first_update_fails (pending_world 2))) = [''u2'']"
  unfolding processURLs_trace [OF Find_two_update_fails]
  by (simp add: run_defs fetched_def pending_world_def pending_rows_def upt_rec
      env_first_update_fails_def submissions_def)

lemma Find_25:
  "Find_unprocessed env_ok (pending_world 25) =
     (Inr (fetched (pending_rows 25)), (emit Ev_Find (pending_world 25))\<lparr>finds := 1\<rparr>)"
  by (simp add: Find_unprocessed_def fetched_def pending_world_def pending_rows_def env_ok_def
      DatabaseLimit_def emit_def)

lemma producer_stops_after_tick:
  assumes "\<not> ctx_Done e w" and "ctx_Done e (time_Sleep PollingInterval (processURLs e w))"
  shows "producer e w = Some (time_Sleep PollingInterval (processURLs e w))"
proof -
  have "producer e w = producer e (time_Sleep PollingInterval (processURLs e w))"
    using assms(1) by (subst producer.simps) simp
  also have "\<dots> = Some (time_Sleep PollingInterval (processURLs e w))"
    using assms(2) by (subst producer.simps) simp
  finally show ?thesis .
qed

lemma cancelled_early_after_tick:
  "ctx_Done env_cancelled_early (time_Sleep PollingInterval (processURLs env_cancelled_early w))"
  by (simp add: ctx_Done_def env_cancelled_early_def PollingInterval_def Second_def)

lemma Find_none:
  "Find_unprocessed env_cancelled_early world_0 = (Inr [], (emit Ev_Find world_0)\<lparr>finds := 1\<rparr>)"
  by (simp add: Find_unprocessed_def world_0_def env_cancelled_early_def emit_def)

lemma Find_11:
  "Find_unprocessed env_cancelled_early (pending_world 11) =
     (Inr (fetched (pending_rows 11)), (emit Ev_Find (pending_world 11))\<lparr>finds := 1\<rparr>)"
  by (simp add: Find_unprocessed_def fetched_def pending_world_def pending_rows_def
      env_cancelled_early_def DatabaseLimit_def emit_def)

lemma submissions_Sleep: "submissions (tr @ [(t, Ev_Sleep d)]) = submissions tr"
  by (simp add: submissions_def)

lemma sendBatch_without_table:
  "fst (sendBatch e c (fold (send_and_update e) pre w)) =
   fst (sendBatch e c (fold (send_and_update e) pre (w\<lparr>urls_table := []\<rparr>)))"
proof -
  obtain t' where "fold (send_and_update e) pre (w\<lparr>urls_table := []\<rparr>) =
      (fold (send_and_update e) pre w)\<lparr>urls_table := t'\<rparr>"
    using fold_send_and_update_table by blast
  then show ?thesis by (simp add: sendBatch_def sendBatch_from_table)
qed

lemma Find_21:
  "Find_unprocessed env_second_refused (pending_world 21) =
     (Inr (fetched (pending_rows 21)), (emit Ev_Find (pending_world 21))\<lparr>finds := 1\<rparr>)"
  by (simp add: Find_unprocessed_def fetched_def pending_world_def pending_rows_def
      env_second_refused_def DatabaseLimit_def emit_def)

lemma chunks_21:
  "chunks_of BatchSize (entries_from 0 (fetched (pending_rows 21))) =
     [take 10 (entries_from 0 (fetched (pending_rows 21)))] @
     take 10 (drop 10 (entries_from 0 (fetched (pending_rows 21)))) #
     [drop 20 (entries_from 0 (fetched (pending_rows 21)))]"
  by (simp add: fetched_def pending_rows_def upt_rec chunks_of.simps BatchSize_def)

lemma submissions_21:
  "submissions (trace (processURLs env_second_refused (pending_world 21))) =
     [(0, ids 1 10, True), (0, ids 11 20, False), (2000000000, ids 11 20, False),
      (6000000000, ids 11 20, False), (12000000000, ids 21 21, True)]"
  unfolding processURLs_trace [OF Find_21]
  by (simp add: run_defs fetched_def pending_world_def pending_rows_def upt_rec
      env_second_refused_def submissions_def ids_def)

lemma applied_21:
  "applied_urls (trace (processURLs env_second_refused (pending_world 21))) =
     [''u1'', ''u2'', ''u3'', ''u4'', ''u5'', ''u6'', ''u7'', ''u8'', ''u9'', ''u10'', ''u21'']"
  unfolding processURLs_trace [OF Find_21]
  by (simp add: run_defs fetched_def pending_world_def pending_rows_def upt_rec
      env_second_refused_def)

lemma processed_21:
  "map row_processed (urls_table (processURLs env_second_refused (pending_world 21))) =
     [True, True, True, True, True, True, True, True, True, True,
      False, False, False, False, False, False, False, False, False, False,
      True]"
proof -
  have "tick_events (pending_world 21) (processURLs env_second_refused (pending_world 21)) =
        trace (processURLs env_second_refused (pending_world 21))"
    by (simp add: tick_events_def pending_world_def)
  then have "urls_table (processURLs env_second_refused (pending_world 21)) =
      mark_urls (set [''u1'', ''u2'', ''u3'', ''u4'', ''u5'', ''u6'', ''u7'', ''u8'', ''u9'', ''u10'',
        ''u21'']) (urls_table (pending_world 21))"
    using processURLs_table [of env_second_refused "pending_world 21"]
    by (simp only: applied_21)
  then show ?thesis
    by (simp add: mark_urls_def pending_world_def pending_rows_def upt_rec dec_digits.simps)
qed

lemma Find_two_chunks:
  "Find_unprocessed env_second_refused world_url_in_two_chunks =
     (Inr (fetched rows_url_in_two_chunks), (emit Ev_Find world_url_in_two_chunks)\<lparr>finds := 1\<rparr>)"
  by (simp add: Find_unprocessed_def fetched_def world_url_in_two_chunks_def
      rows_url_in_two_chunks_def pending_rows_def env_second_refused_def DatabaseLimit_def emit_def
      upt_rec)

lemma applied_two_chunks:
  "applied_urls (trace (processURLs env_second_refused world_url_in_two_chunks)) =
     [''u1'', ''u2'', ''u3'', ''u4'', ''u5'', ''u6'', ''u7'', ''u8'', ''u9'', ''u10'', ''u21'']"
  unfolding processURLs_trace [OF Find_two_chunks]
  by (simp add: run_defs fetched_def world_url_in_two_chunks_def rows_url_in_two_chunks_def
      pending_rows_def upt_rec env_second_refused_def)

lemma Find_21_update_fails:
  "Find_unprocessed env_second_refused_update_fails (pending_world 21) =
     (Inr (fetched (pending_rows 21)), (emit Ev_Find (pending_world 21))\<lparr>finds := 1\<rparr>)"
  by (simp add: Find_unprocessed_def fetched_def pending_world_def pending_rows_def
      env_second_refused_update_fails_def DatabaseLimit_def emit_def)

lemma applied_21_update_fails:
  "applied_urls (trace (processURLs env_second_refused_update_fails (pending_world 21))) =
     [''u2'', ''u3'', ''u4'', ''u5'', ''u6'', ''u7'', ''u8'', ''u9'', ''u10'', ''u21'']"
  unfolding processURLs_trace [OF Find_21_update_fails]
  by (simp add: run_defs fetched_def pending_world_def pending_rows_def upt_rec
      env_second_refused_update_fails_def)

lemma submissions_21_update_fails:
  "submissions (trace (processURLs env_second_refused_update_fails (pending_world 21))) =
     [(0, ids 1 10, True), (0, ids 11 20, False), (2000000000, ids 11 20, False),
      (6000000000, ids 11 20, False), (12000000000, ids 21 21, True)]"
  unfolding processURLs_trace [OF Find_21_update_fails]
  by (simp add: run_defs fetched_def pending_world_def pending_rows_def upt_rec
      env_second_refused_update_fails_def submissions_def ids_def)

section \<open>The claims\<close>

subsection \<open>C1: updates follow accepted submissions\<close>

text \<open>
  Claim C1 says that the records a tick marks are exactly the records of the chunks whose
  submission succeeded, and that marking never precedes acceptance. The update is keyed on
  the url and its result is discarded, so what holds of every tick, in every environment,
  is this: the urls for which the tick issues an update are, in order, exactly the message
  bodies of the entries of the accepted submissions; every update comes after an accepted
  submission with an entry of that body; the updates that the database executes are among
  those issued; and the table afterwards is the table before with the flag set on every
  row whose url is the url of an executed update, and on no other row.
\<close>

theorem updates_exactly_for_accepted_payloads:
  "(let w' = processURLs e w; new = tick_events w w' in
      trace w' = trace w @ new \<and>
      updated_urls new = accepted_bodies new \<and>
      updates_follow_acceptance {} new \<and>
      set (applied_urls new) \<subseteq> set (updated_urls new) \<and>
      urls_table w' = mark_urls (set (applied_urls new)) (urls_table w))"
  using processURLs_marks [of w e] applied_urls_subset [of "tick_events w (processURLs e w)"]
  by (simp add: marks_by_acceptance_def Let_def)

text \<open>
  Two rows, both accepted in one batch: the two urls are updated and both rows end marked.
\<close>

theorem updates_exactly_for_accepted_payloads_witness:
  "accepted_bodies (tick_events (pending_world 2) (processURLs env_ok (pending_world 2))) =
     [''u1'', ''u2''] \<and>
   updated_urls (tick_events (pending_world 2) (processURLs env_ok (pending_world 2))) =
     [''u1'', ''u2''] \<and>
   applied_urls (tick_events (pending_world 2) (processURLs env_ok (pending_world 2))) =
     [''u1'', ''u2''] \<and>
   urls_table (processURLs env_ok (pending_world 2)) =
     [\<lparr>row_id = 1, row_url = ''u1'', row_processed = True\<rparr>,
      \<lparr>row_id = 2, row_url = ''u2'', row_processed = True\<rparr>]"
proof -
  let ?new = "tick_events (pending_world 2) (processURLs env_ok (pending_world 2))"
  have n: "?new = trace (processURLs env_ok (pending_world 2))"
    by (simp add: tick_events_def pending_world_def)
  have a: "accepted_bodies ?new = [''u1'', ''u2'']"
    unfolding n processURLs_trace [OF Find_two]
    by (simp add: run_defs fetched_def pending_world_def pending_rows_def upt_rec env_ok_def)
  have b: "applied_urls ?new = [''u1'', ''u2'']"
    unfolding n processURLs_trace [OF Find_two]
    by (simp add: run_defs fetched_def pending_world_def pending_rows_def upt_rec env_ok_def)
  have c: "updated_urls ?new = accepted_bodies ?new \<and>
      urls_table (processURLs env_ok (pending_world 2)) =
        mark_urls (set (applied_urls ?new)) (urls_table (pending_world 2))"
    using updates_exactly_for_accepted_payloads [of env_ok "pending_world 2"] by (simp add: Let_def)
  show ?thesis
    using c unfolding a b
    by (simp add: mark_urls_def pending_world_def pending_rows_def upt_rec dec_digits.simps)
qed

text \<open>
  Against C1 as stated, in both directions. Eleven unprocessed rows, the eleventh with the
  url of the first, and a queue that accepts only the first submission: record 11 is sent
  as \<open>msg-11\<close> in the second chunk, which is refused three times and never accepted; yet
  record 11 ends marked, because the first chunk updated its url. And two unprocessed rows,
  a queue that accepts their batch, and a database that fails the first update: record 1,
  of the accepted chunk, ends unmarked.
\<close>

theorem record_of_refused_chunk_marked:
  "submissions (trace (processURLs env_first_only world_shared_url)) =
     [(0, [''msg-1'', ''msg-2'', ''msg-3'', ''msg-4'', ''msg-5'', ''msg-6'', ''msg-7'', ''msg-8'',
        ''msg-9'', ''msg-10''], True),
      (0, [''msg-11''], False), (2000000000, [''msg-11''], False), (6000000000, [''msg-11''], False)] \<and>
   urls_table world_shared_url ! 10 = \<lparr>row_id = 11, row_url = ''u1'', row_processed = False\<rparr> \<and>
   urls_table (processURLs env_first_only world_shared_url) ! 10 =
     \<lparr>row_id = 11, row_url = ''u1'', row_processed = True\<rparr> \<and>
   submissions (trace (processURLs env_first_update_fails (pending_world 2))) =
     [(0, [''msg-1'', ''msg-2''], True)] \<and>
   urls_table (processURLs env_first_update_fails (pending_world 2)) =
     [\<lparr>row_id = 1, row_url = ''u1'', row_processed = False\<rparr>,
      \<lparr>row_id = 2, row_url = ''u2'', row_processed = True\<rparr>]"
proof -
  have "tick_events world_shared_url (processURLs env_first_only world_shared_url) =
        trace (processURLs env_first_only world_shared_url)"
    by (simp add: tick_events_def world_shared_url_def)
  then have "urls_table (processURLs env_first_only world_shared_url) =
      mark_urls (set [''u1'', ''u2'', ''u3'', ''u4'', ''u5'', ''u6'', ''u7'', ''u8'', ''u9'', ''u10''])
        (urls_table world_shared_url)"
    using processURLs_table [of env_first_only world_shared_url]
    by (simp only: applied_shared_url)
  then have a: "urls_table (processURLs env_first_only world_shared_url) ! 10 =
     \<lparr>row_id = 11, row_url = ''u1'', row_processed = True\<rparr>"
    by (simp add: mark_urls_def world_shared_url_def rows_shared_url_def pending_rows_def
        nth_append)
  have b: "urls_table world_shared_url ! 10 =
      \<lparr>row_id = 11, row_url = ''u1'', row_processed = False\<rparr>"
    by (simp add: world_shared_url_def rows_shared_url_def pending_rows_def nth_append)
  have "tick_events (pending_world 2) (processURLs env_first_update_fails (pending_world 2)) =
        trace (processURLs env_first_update_fails (pending_world 2))"
    by (simp add: tick_events_def pending_world_def)
  then have "urls_table (processURLs env_first_update_fails (pending_world 2)) =
      mark_urls (set [''u2'']) (urls_table (pending_world 2))"
    using processURLs_table [of env_first_update_fails "pending_world 2"]
    by (simp only: trace_two_update_fails)
  then have c: "urls_table (processURLs env_first_update_fails (pending_world 2)) =
     [\<lparr>row_id = 1, row_url = ''u1'', row_processed = False\<rparr>,
      \<lparr>row_id = 2, row_url = ''u2'', row_processed = True\<rparr>]"
    by (simp add: mark_urls_def pending_world_def pending_rows_def upt_rec dec_digits.simps)
  show ?thesis using a b c trace_shared_url trace_two_update_fails by simp
qed

subsection \<open>C2: consecutive chunks\<close>

text \<open>
  Claim C2: for a non-empty fetched sequence of \<open>N\<close> records, the loop of
  \<^verbatim>\<open>processURLs\<close> is one \<open>send_and_update\<close> per chunk, in order, of the partition of
  the entries into consecutive chunks; there are \<open>\<lceil>N / BatchSize\<rceil>\<close> chunks; they hold the
  fetched urls in fetch order, each once; every chunk is non-empty and at most \<open>BatchSize\<close>
  long, and every chunk but the last is exactly \<open>BatchSize\<close> long.
\<close>

theorem processURLs_consecutive_chunks:
  assumes "Find_unprocessed e w = (Inr urls, w1)" and "urls \<noteq> []"
  shows "(let cs = chunks_of BatchSize (entries_from (messageCount w) urls) in
          processURLs e w =
            fold (send_and_update e) cs (w1\<lparr>messageCount := messageCount w + of_nat (length urls)\<rparr>) \<and>
          length cs = (length urls + BatchSize - 1) div BatchSize \<and>
          map MessageBody (concat cs) = map URL urls \<and>
          (\<forall>c \<in> set cs. c \<noteq> [] \<and> length c \<le> BatchSize) \<and>
          (\<forall>c \<in> set (butlast cs). length c = BatchSize))"
proof -
  have k: "0 < BatchSize" by (simp add: BatchSize_def)
  let ?cs = "chunks_of BatchSize (entries_from (messageCount w) urls)"
  have 1: "processURLs e w =
      fold (send_and_update e) ?cs (w1\<lparr>messageCount := messageCount w + of_nat (length urls)\<rparr>)"
    by (rule processURLs_chunks [OF assms(1)])
  have 2: "length ?cs = (length urls + BatchSize - 1) div BatchSize"
    using length_chunks_of [OF k, of "entries_from (messageCount w) urls"] by simp
  have 3: "map MessageBody (concat ?cs) = map URL urls"
    by (simp add: concat_chunks_of [OF k] bodies_entries_from)
  have 4: "\<forall>c \<in> set ?cs. c \<noteq> [] \<and> length c \<le> BatchSize"
    using chunks_of_sizes [OF k] by blast
  have 5: "\<forall>c \<in> set (butlast ?cs). length c = BatchSize"
    using chunks_of_butlast [OF k] by blast
  show ?thesis
    unfolding Let_def using 1 2 3 4 5 by blast
qed

text \<open>
  Twenty-five rows and a queue that accepts everything: chunks of 10, 10 and 5, and exactly
  three submissions, of these sizes.
\<close>

theorem processURLs_consecutive_chunks_witness:
  "map length (chunks_of BatchSize (entries_from 0 (fetched (pending_rows 25)))) = [10, 10, 5] \<and>
   length (chunks_of BatchSize (entries_from 0 (fetched (pending_rows 25)))) =
     (25 + BatchSize - 1) div BatchSize \<and>
   send_sizes (trace (processURLs env_ok (pending_world 25))) = [10, 10, 5]"
proof -
  let ?cs = "chunks_of BatchSize (entries_from 0 (fetched (pending_rows 25)))"
  let ?w1 = "(emit Ev_Find (pending_world 25))\<lparr>finds := 1\<rparr>"
  have ne: "fetched (pending_rows 25) \<noteq> []"
    by (simp add: fetched_def pending_rows_def)
  have mc: "messageCount (pending_world 25) = 0" by (simp add: pending_world_def)
  have n: "length (fetched (pending_rows 25)) = 25" by (simp add: fetched_def pending_rows_def)
  have c: "processURLs env_ok (pending_world 25) =
        fold (send_and_update env_ok) ?cs (?w1\<lparr>messageCount := 0 + of_nat 25\<rparr>) \<and>
      length ?cs = (25 + BatchSize - 1) div BatchSize"
    using processURLs_consecutive_chunks [OF Find_25 ne] unfolding Let_def mc n by blast
  have sizes: "map length ?cs = [10, 10, 5]"
    by (simp add: fetched_def pending_rows_def upt_rec chunks_of.simps BatchSize_def)
  have "trace (processURLs env_ok (pending_world 25)) =
        trace (fold (send_and_update env_ok) ?cs (?w1\<lparr>messageCount := 0 + of_nat 25, urls_table := []\<rparr>))"
    using c by (simp add: trace_without_table)
  then have "send_sizes (trace (processURLs env_ok (pending_world 25))) = [10, 10, 5]"
    by (simp add: run_defs fetched_def pending_world_def pending_rows_def upt_rec env_ok_def
        send_sizes_def)
  then show ?thesis using c sizes by simp
qed

subsection \<open>C3: the retry bound and the sleeps\<close>

text \<open>
  Claim C3 says that \<^verbatim>\<open>sendBatch\<close> makes at most \<open>RetryAttempts\<close> submissions and sleeps
  only between attempts, never after the last. When all three submissions fail, the code
  makes three submissions and then sleeps \<open>RetryBackoff * 3\<close>, six seconds, after the third
  and last one, before it returns the error at second 12.
\<close>

theorem sendBatch_sleeps_after_last_attempt:
  "sendBatch env_all_fail [entry_a] world_0 =
     (Some (RetriesExhausted 3),
      \<lparr>urls_table = [], clock = 12000000000,
       trace = [(0, Ev_SendMessageBatch [entry_a] False), (0, Ev_Sleep 2000000000),
                (2000000000, Ev_SendMessageBatch [entry_a] False), (2000000000, Ev_Sleep 4000000000),
                (6000000000, Ev_SendMessageBatch [entry_a] False), (6000000000, Ev_Sleep 6000000000)],
       finds = 0, sends = 3, updates = 0, messageCount = 0\<rparr>)"
  by (simp add: send_defs env_all_fail_def world_0_def)

subsection \<open>C4: success on an attempt, after linear backoff\<close>

text \<open>
  Claim C4: when the first \<open>j\<close> submissions fail and the next one succeeds, with
  \<open>j < RetryAttempts\<close>, \<^verbatim>\<open>sendBatch\<close> returns \<^verbatim>\<open>nil\<close> right after the
  successful submission, having slept \<open>RetryBackoff * k\<close> after the failed attempt number
  \<open>k\<close>, for \<open>k = 1, ..., j\<close>, and nothing else.
\<close>

theorem sendBatch_first_success:
  assumes "j < RetryAttempts"
    and "\<forall>i<j. fst (SendMessageBatch e batch (retry_script batch 1 i w)) \<noteq> None"
    and "fst (SendMessageBatch e batch (retry_script batch 1 j w)) = None"
  shows "sendBatch e batch w = (None, record_send batch True (retry_script batch 1 j w))"
proof -
  have "sendBatch_from e 0 batch w = sendBatch_from e (0 + j) batch (retry_script batch (0 + 1) j w)"
    by (rule sendBatch_from_failures) (use assms in auto)
  also have "\<dots> = (None, record_send batch True (retry_script batch 1 j w))"
    using assms(1) SendMessageBatch_accepted [OF assms(3)]
    by (subst sendBatch_from.simps) simp
  finally show ?thesis by (simp add: sendBatch_def)
qed

text \<open>
  Two failures, then success: three submissions, sleeps of two and of four seconds, and
  \<^verbatim>\<open>nil\<close>.
\<close>

theorem sendBatch_first_success_witness: "sendBatch env_2_failures [entry_a] world_0 =
    (None, \<lparr>urls_table = [], clock = 6000000000,
            trace = [(0, Ev_SendMessageBatch [entry_a] False), (0, Ev_Sleep 2000000000),
                     (2000000000, Ev_SendMessageBatch [entry_a] False), (2000000000, Ev_Sleep 4000000000),
                     (6000000000, Ev_SendMessageBatch [entry_a] True)],
            finds = 0, sends = 3, updates = 0, messageCount = 0\<rparr>)"
proof -
  have h1: "Suc (Suc 0) < RetryAttempts" by (simp add: RetryAttempts_def)
  have h2: "\<forall>i<Suc (Suc 0). fst (SendMessageBatch env_2_failures [entry_a] (retry_script [entry_a] 1 i world_0)) \<noteq> None"
    by (simp add: less_Suc_eq world_ops env_2_failures_def world_0_def)
  have h3: "fst (SendMessageBatch env_2_failures [entry_a] (retry_script [entry_a] 1 (Suc (Suc 0)) world_0)) = None"
    by (simp add: world_ops env_2_failures_def world_0_def)
  show ?thesis
    using sendBatch_first_success [OF h1 h2 h3]
    by (simp add: world_ops world_0_def)
qed

subsection \<open>C5: cancellation during a backoff sleep\<close>

text \<open>
  Claim C5 says that a cancellation during a backoff sleep makes \<^verbatim>\<open>sendBatch\<close> give up
  at once. The sleeps of \<^verbatim>\<open>sendBatch\<close> are plain \<^verbatim>\<open>time.Sleep\<close> calls and the
  loop never looks at the context, which only the submission call receives. What holds is:
  whenever the submissions keep failing, and whenever the context is cancelled, the sender
  makes all \<open>RetryAttempts\<close> submissions, with the full backoff sleep between each two, and
  then returns the error.
\<close>

theorem sendBatch_completes_attempts:
  assumes "\<forall>i<RetryAttempts. fst (SendMessageBatch e batch (retry_script batch 1 i w)) \<noteq> None"
  shows "fst (sendBatch e batch w) = Some (RetriesExhausted RetryAttempts) \<and>
         (\<exists>rest. trace (snd (sendBatch e batch w)) =
            trace (record_send batch False (retry_script batch 1 (RetryAttempts - 1) w)) @ rest)"
proof -
  have ra: "RetryAttempts = Suc (RetryAttempts - 1)" by (simp add: RetryAttempts_def)
  have "sendBatch_from e 0 batch w =
        sendBatch_from e (0 + RetryAttempts) batch (retry_script batch (0 + 1) RetryAttempts w)"
    by (rule sendBatch_from_failures) (use assms in auto)
  also have "\<dots> = (Some (RetriesExhausted RetryAttempts), retry_script batch 1 RetryAttempts w)"
    by (subst sendBatch_from.simps) simp
  finally have sb: "sendBatch e batch w =
      (Some (RetriesExhausted RetryAttempts), retry_script batch 1 RetryAttempts w)"
    by (simp add: sendBatch_def)
  have "retry_script batch 1 RetryAttempts w =
        time_Sleep (RetryBackoff * (1 + (RetryAttempts - 1)))
          (record_send batch False (retry_script batch 1 (RetryAttempts - 1) w))"
    by (subst ra) (rule retry_script_end)
  then have "trace (retry_script batch 1 RetryAttempts w) =
        trace (record_send batch False (retry_script batch 1 (RetryAttempts - 1) w)) @
        [(clock (retry_script batch 1 (RetryAttempts - 1) w),
          Ev_Sleep (RetryBackoff * (1 + (RetryAttempts - 1))))]"
    by simp
  then show ?thesis using sb by simp
qed

text \<open>
  A context cancelled one nanosecond after the start, and submissions that all fail: the
  sender returns the error after submissions at seconds 0, 2 and 6.
\<close>

theorem sendBatch_completes_attempts_witness:
  "cancel_at env_cancelled_early = Some 1 \<and>
   fst (sendBatch env_cancelled_early [entry_a] world_0) = Some (RetriesExhausted RetryAttempts) \<and>
   (\<exists>rest. trace (snd (sendBatch env_cancelled_early [entry_a] world_0)) =
      [(0, Ev_SendMessageBatch [entry_a] False), (0, Ev_Sleep 2000000000),
       (2000000000, Ev_SendMessageBatch [entry_a] False), (2000000000, Ev_Sleep 4000000000),
       (6000000000, Ev_SendMessageBatch [entry_a] False)] @ rest)"
proof -
  have h: "\<forall>i<RetryAttempts.
      fst (SendMessageBatch env_cancelled_early [entry_a] (retry_script [entry_a] 1 i world_0)) \<noteq> None"
    by (simp add: SendMessageBatch_def env_cancelled_early_def Let_def)
  have n: "RetryAttempts - 1 = Suc (Suc 0)" by (simp add: RetryAttempts_def)
  have t: "trace (record_send [entry_a] False (retry_script [entry_a] 1 (Suc (Suc 0)) world_0)) =
      [(0, Ev_SendMessageBatch [entry_a] False), (0, Ev_Sleep 2000000000),
       (2000000000, Ev_SendMessageBatch [entry_a] False), (2000000000, Ev_Sleep 4000000000),
       (6000000000, Ev_SendMessageBatch [entry_a] False)]"
    by (simp add: world_0_def RetryBackoff_def Second_def)
  show ?thesis
    using sendBatch_completes_attempts [OF h] unfolding n t by (simp add: env_cancelled_early_def)
qed

text \<open>
  Against C5 as stated: the context is cancelled one nanosecond after the start, that is
  during the first backoff sleep, which runs from second 0 to second 2. The sender still
  submits at seconds 2 and 6 and returns at second 12.
\<close>

theorem sendBatch_backoff_not_cancellable:
  "cancel_at env_cancelled_early = Some 1 \<and>
   sendBatch env_cancelled_early [entry_a] world_0 =
     (Some (RetriesExhausted 3),
      \<lparr>urls_table = [], clock = 12000000000,
       trace = [(0, Ev_SendMessageBatch [entry_a] False), (0, Ev_Sleep 2000000000),
                (2000000000, Ev_SendMessageBatch [entry_a] False), (2000000000, Ev_Sleep 4000000000),
                (6000000000, Ev_SendMessageBatch [entry_a] False), (6000000000, Ev_Sleep 6000000000)],
       finds = 0, sends = 3, updates = 0, messageCount = 0\<rparr>)"
  by (simp add: send_defs env_cancelled_early_def world_0_def)

subsection \<open>C6: shutdown of the loop\<close>

text \<open>
  Claim C6 says that the sleep between ticks wakes on cancellation, that no call follows
  cancellation, and that the loop exits within one polling interval and one backoff cycle.
  The loop of \<^verbatim>\<open>main\<close> looks at the context only at the top of an iteration, and its
  sleep is a plain \<^verbatim>\<open>time.Sleep\<close>. What holds is: once a cancellation is scheduled, the
  loop returns; it returns at the first start of an iteration at which the context is
  cancelled, after whole ticks each followed by a whole sleep of \<open>PollingInterval\<close>, and it
  makes no call after that check.
\<close>

theorem producer_stops_at_iteration_start:
  assumes "cancel_at e = Some t"
  shows "\<exists>k. producer e w = Some (ticks e k w) \<and> ctx_Done e (ticks e k w) \<and>
             (\<forall>j<k. \<not> ctx_Done e (ticks e j w))"
proof -
  have pos: "0 < PollingInterval" by (simp add: PollingInterval_def Second_def)
  have "t \<le> t * PollingInterval" using pos by simp
  then have "t \<le> clock (ticks e t w)" using clock_ticks [of w t e] by linarith
  then have "ctx_Done e (ticks e t w)" using assms by (simp add: ctx_Done_def)
  then have "\<exists>k. ctx_Done e (ticks e k w)" ..
  then obtain k where k: "ctx_Done e (ticks e k w)" "\<forall>j<k. \<not> ctx_Done e (ticks e j w)"
    using exists_least_iff [of "\<lambda>k. ctx_Done e (ticks e k w)"] by blast
  have "producer e w = producer e (ticks e k w)"
    by (rule producer_ticks) (use k(2) in blast)
  also have "\<dots> = Some (ticks e k w)"
    using k(1) by (subst producer.simps) simp
  finally show ?thesis using k by blast
qed

text \<open>
  An empty table and a cancellation after one nanosecond: the loop returns after exactly one
  iteration.
\<close>

theorem producer_stops_at_iteration_start_witness:
  "cancel_at env_cancelled_early = Some 1 \<and>
   producer env_cancelled_early world_0 = Some (ticks env_cancelled_early 1 world_0)"
proof -
  have h: "cancel_at env_cancelled_early = Some 1" by (simp add: env_cancelled_early_def)
  obtain k where k: "producer env_cancelled_early world_0 = Some (ticks env_cancelled_early k world_0)"
      "\<forall>j<k. \<not> ctx_Done env_cancelled_early (ticks env_cancelled_early j world_0)"
      "ctx_Done env_cancelled_early (ticks env_cancelled_early k world_0)"
    using producer_stops_at_iteration_start [OF h, of world_0] by blast
  have z: "\<not> ctx_Done env_cancelled_early (ticks env_cancelled_early 0 world_0)"
    by (simp add: ctx_Done_def env_cancelled_early_def world_0_def)
  have "k \<noteq> 0"
  proof
    assume "k = 0"
    with k(3) have "ctx_Done env_cancelled_early (ticks env_cancelled_early 0 world_0)" by simp
    with z show False by contradiction
  qed
  moreover have "ctx_Done env_cancelled_early (ticks env_cancelled_early 1 world_0)"
    using cancelled_early_after_tick [of world_0] by simp
  then have "\<not> 1 < k" using k(2) by blast
  ultimately have "k = 1" by simp
  then show ?thesis using k(1) h by simp
qed

text \<open>
  Against C6 as stated, with a cancellation one nanosecond after the start. On an empty
  table the cancellation falls into the sleep between ticks, and the loop returns at second
  10, after the whole sleep. On eleven rows with a queue that refuses everything it falls
  into the first backoff sleep; five more submissions follow, at seconds 2, 6, 12, 14 and
  18, and the loop returns at second 34.
\<close>

theorem producer_sleep_not_cancellable:
  "cancel_at env_cancelled_early = Some 1 \<and>
   map_option clock (producer env_cancelled_early world_0) = Some 10000000000 \<and>
   map_option (\<lambda>w. (clock w, submissions (trace w))) (producer env_cancelled_early (pending_world 11)) =
     Some (34000000000,
       [(0, [''msg-1'', ''msg-2'', ''msg-3'', ''msg-4'', ''msg-5'', ''msg-6'', ''msg-7'', ''msg-8'',
             ''msg-9'', ''msg-10''], False),
        (2000000000, [''msg-1'', ''msg-2'', ''msg-3'', ''msg-4'', ''msg-5'', ''msg-6'', ''msg-7'',
             ''msg-8'', ''msg-9'', ''msg-10''], False),
        (6000000000, [''msg-1'', ''msg-2'', ''msg-3'', ''msg-4'', ''msg-5'', ''msg-6'', ''msg-7'',
             ''msg-8'', ''msg-9'', ''msg-10''], False),
        (12000000000, [''msg-11''], False),
        (14000000000, [''msg-11''], False),
        (18000000000, [''msg-11''], False)])"
proof -
  have n0: "\<not> ctx_Done env_cancelled_early world_0"
    by (simp add: ctx_Done_def env_cancelled_early_def world_0_def)
  have n11: "\<not> ctx_Done env_cancelled_early (pending_world 11)"
    by (simp add: ctx_Done_def env_cancelled_early_def pending_world_def)
  have p0: "producer env_cancelled_early world_0 =
      Some (time_Sleep PollingInterval (processURLs env_cancelled_early world_0))"
    by (rule producer_stops_after_tick [OF n0 cancelled_early_after_tick])
  have p11: "producer env_cancelled_early (pending_world 11) =
      Some (time_Sleep PollingInterval (processURLs env_cancelled_early (pending_world 11)))"
    by (rule producer_stops_after_tick [OF n11 cancelled_early_after_tick])
  have c0: "clock (processURLs env_cancelled_early world_0) = 0"
    unfolding processURLs_clock [OF Find_none]
    by (simp add: chunks_of.simps world_0_def emit_def)
  have c11: "clock (processURLs env_cancelled_early (pending_world 11)) = 24000000000"
    unfolding processURLs_clock [OF Find_11]
    by (simp add: run_defs fetched_def pending_world_def pending_rows_def upt_rec
        env_cancelled_early_def)
  have s11: "submissions (trace (processURLs env_cancelled_early (pending_world 11))) =
       [(0, [''msg-1'', ''msg-2'', ''msg-3'', ''msg-4'', ''msg-5'', ''msg-6'', ''msg-7'', ''msg-8'',
             ''msg-9'', ''msg-10''], False),
        (2000000000, [''msg-1'', ''msg-2'', ''msg-3'', ''msg-4'', ''msg-5'', ''msg-6'', ''msg-7'',
             ''msg-8'', ''msg-9'', ''msg-10''], False),
        (6000000000, [''msg-1'', ''msg-2'', ''msg-3'', ''msg-4'', ''msg-5'', ''msg-6'', ''msg-7'',
             ''msg-8'', ''msg-9'', ''msg-10''], False),
        (12000000000, [''msg-11''], False),
        (14000000000, [''msg-11''], False),
        (18000000000, [''msg-11''], False)]"
    unfolding processURLs_trace [OF Find_11]
    by (simp add: run_defs fetched_def pending_world_def pending_rows_def upt_rec
        env_cancelled_early_def submissions_def)
  have "cancel_at env_cancelled_early = Some 1" by (simp add: env_cancelled_early_def)
  then show ?thesis
    unfolding p0 p11
    by (simp add: c0 c11 s11 submissions_Sleep PollingInterval_def Second_def)
qed

subsection \<open>C7: a failed fetch\<close>

text \<open>
  Claim C7: when the fetch fails, \<^verbatim>\<open>processURLs\<close> returns with nothing done but the
  fetch itself: no submission, no update, the table and the counter as they were. The loop
  of \<^verbatim>\<open>main\<close>, unless cancelled, then sleeps and reaches its next iteration in that
  state; and unless cancelled by then, it runs the next tick there and reaches the
  iteration after it. Here \<open>at_iteration\<close> is the loop watched at the start of an
  iteration; by \<open>producer_returns_iff\<close> the loop returns a state exactly when it reaches an
  iteration in that state with the context cancelled.
\<close>

theorem fetch_failure_skips_tick:
  assumes "Find_fails e (finds w)"
  shows "processURLs e w = (emit Ev_Find w)\<lparr>finds := finds w + 1\<rparr> \<and>
         (\<not> ctx_Done e w \<longrightarrow>
            at_iteration e (Suc 0) w =
              Some (time_Sleep PollingInterval ((emit Ev_Find w)\<lparr>finds := finds w + 1\<rparr>)) \<and>
            (\<not> ctx_Done e (time_Sleep PollingInterval ((emit Ev_Find w)\<lparr>finds := finds w + 1\<rparr>)) \<longrightarrow>
               at_iteration e (Suc (Suc 0)) w =
                 Some (time_Sleep PollingInterval
                   (processURLs e
                     (time_Sleep PollingInterval ((emit Ev_Find w)\<lparr>finds := finds w + 1\<rparr>))))))"
proof -
  have p: "processURLs e w = (emit Ev_Find w)\<lparr>finds := finds w + 1\<rparr>"
    using assms by (simp add: processURLs_def Find_unprocessed_def Let_def)
  show ?thesis
    unfolding at_iteration.simps p by simp
qed

text \<open>
  Three unprocessed rows and a database that is down: the loop reaches its second iteration
  at second 10 and its third at second 20, having fetched twice and done nothing else.
\<close>

theorem fetch_failure_skips_tick_witness:
  "Find_fails env_db_down (finds (pending_world 3)) \<and>
   processURLs env_db_down (pending_world 3) =
     \<lparr>urls_table = pending_rows 3, clock = 0, trace = [(0, Ev_Find)], finds = 1, sends = 0,
      updates = 0, messageCount = 0\<rparr> \<and>
   at_iteration env_db_down (Suc 0) (pending_world 3) =
     Some \<lparr>urls_table = pending_rows 3, clock = 10000000000,
           trace = [(0, Ev_Find), (0, Ev_Sleep 10000000000)], finds = 1, sends = 0,
           updates = 0, messageCount = 0\<rparr> \<and>
   at_iteration env_db_down (Suc (Suc 0)) (pending_world 3) =
     Some \<lparr>urls_table = pending_rows 3, clock = 20000000000,
           trace = [(0, Ev_Find), (0, Ev_Sleep 10000000000),
                    (10000000000, Ev_Find), (10000000000, Ev_Sleep 10000000000)],
           finds = 2, sends = 0, updates = 0, messageCount = 0\<rparr>"
proof -
  have h: "Find_fails env_db_down (finds (pending_world 3))" by (simp add: env_db_down_def)
  have n: "\<not> ctx_Done env_db_down w" for w by (simp add: ctx_Done_def env_db_down_def)
  have p: "processURLs env_db_down w = (emit Ev_Find w)\<lparr>finds := finds w + 1\<rparr>" for w
    by (simp add: processURLs_def Find_unprocessed_def Let_def env_db_down_def)
  show ?thesis
    using fetch_failure_skips_tick [OF h] h n
    by (simp add: p pending_world_def emit_def time_Sleep_def PollingInterval_def Second_def)
qed

subsection \<open>C8: the schema\<close>

text \<open>
  Claim C8 says that the one entity has the attributes id, payload and delivered, with an
  index on the last, and that fetch and update use the delivered attribute. The entity the
  code migrates, \<^verbatim>\<open>models.URLs\<close>, declares the columns \<open>id\<close> and \<open>url\<close> only: the column
  \<open>processed\<close>, which the fetch filters on and the update sets, is not among them.
\<close>

theorem processed_column_not_declared:
  "map column_name URLs_columns = [''id'', ''url''] \<and>
   Find_where_column \<notin> set (map column_name URLs_columns) \<and>
   Update_set_column \<notin> set (map column_name URLs_columns) \<and>
   Update_where_column \<in> set (map column_name URLs_columns)"
  by (simp add: URLs_columns_def Find_where_column_def Update_set_column_def Update_where_column_def)

subsection \<open>C9: a failed chunk\<close>

text \<open>
  Claim C9 says that a failed chunk affects only itself, that the records of an accepted
  chunk are marked and that the records of a failed chunk are not. For every chunk of a
  tick, whatever happened to the chunks before it: the tick is this chunk's
  \<open>send_and_update\<close> in the state the earlier chunks left, followed by the later chunks;
  the chunk is submitted at least once; when its submission fails, it issues no update and
  leaves the table as it was; when it succeeds, it issues one update per entry, and for
  every entry whose update the database executes, every row with the url of that entry is
  marked at the end of the tick. And a row that the tick marks has the url of an entry of
  some accepted submission of the tick: so a record of a failed chunk stays unmarked unless
  an accepted chunk holds an entry with its url.
\<close>

theorem chunk_failure_isolated:
  assumes "Find_unprocessed e w = (Inr urls, w1)"
    and "chunks_of BatchSize (entries_from (messageCount w) urls) = pre @ c # post"
  shows "(let wk = fold (send_and_update e) pre
                     (w1\<lparr>messageCount := messageCount w + of_nat (length urls)\<rparr>);
              wk' = send_and_update e c wk
          in processURLs e w = fold (send_and_update e) post wk' \<and>
             (\<exists>ok rest. tick_events wk wk' = (clock wk, Ev_SendMessageBatch c ok) # rest) \<and>
             (fst (sendBatch e c wk) \<noteq> None \<longrightarrow>
                urls_table wk' = urls_table wk \<and> updated_urls (tick_events wk wk') = []) \<and>
             (fst (sendBatch e c wk) = None \<longrightarrow>
                updated_urls (tick_events wk wk') = map MessageBody c \<and>
                (\<forall>j<length c. \<not> Update_fails e (updates wk + j) \<longrightarrow>
                   (\<forall>r \<in> set (urls_table (processURLs e w)).
                      row_url r = MessageBody (c ! j) \<longrightarrow> row_processed r))) \<and>
             (\<forall>i<length (urls_table w).
                row_processed (urls_table (processURLs e w) ! i) \<longrightarrow>
                row_processed (urls_table w ! i) \<or>
                row_url (urls_table w ! i) \<in>
                  set (accepted_bodies (tick_events w (processURLs e w)))))"
proof -
  let ?wk = "fold (send_and_update e) pre
               (w1\<lparr>messageCount := messageCount w + of_nat (length urls)\<rparr>)"
  let ?wk' = "send_and_update e c ?wk"
  have 1: "processURLs e w = fold (send_and_update e) post ?wk'"
    unfolding processURLs_chunks [OF assms(1)] assms(2) by simp
  have 2: "\<exists>ok rest. tick_events ?wk ?wk' = (clock ?wk, Ev_SendMessageBatch c ok) # rest"
    using send_and_update_first_event [of e c ?wk] by (auto simp: tick_events_def)
  have 3: "urls_table ?wk' = urls_table ?wk \<and> updated_urls (tick_events ?wk ?wk') = []"
    if failed: "fst (sendBatch e c ?wk) \<noteq> None"
  proof -
    obtain new where new: "trace (snd (sendBatch_from e 0 c ?wk)) = trace ?wk @ new"
      "updated_urls new = []"
      using sendBatch_from_effect [of e 0 c ?wk] by blast
    have "tick_events ?wk ?wk' = new"
      using new(1) by (simp add: send_and_update_failed [OF failed] tick_events_def sendBatch_def)
    then show ?thesis
      using new(2) by (simp add: send_and_update_failed [OF failed] sendBatch_table_unchanged)
  qed
  have 4: "updated_urls (tick_events ?wk ?wk') = map MessageBody c \<and>
           (\<forall>j<length c. \<not> Update_fails e (updates ?wk + j) \<longrightarrow>
              (\<forall>r \<in> set (urls_table (processURLs e w)).
                 row_url r = MessageBody (c ! j) \<longrightarrow> row_processed r))"
    if ok: "fst (sendBatch e c ?wk) = None"
  proof -
    let ?X = "set (executed_updates e (updates ?wk) c)"
    have eff: "urls_table ?wk' = mark_urls ?X (urls_table ?wk)"
      "updated_urls (tick_events ?wk ?wk') = map MessageBody c"
      using send_and_update_accepted_effect [OF ok] by simp_all
    have "marks_by_acceptance ?wk' (fold (send_and_update e) post ?wk')"
      by (rule fold_send_and_update_marks)
    then obtain S where "urls_table (fold (send_and_update e) post ?wk') = mark_urls S (urls_table ?wk')"
      by (auto simp: marks_by_acceptance_def Let_def)
    then have final: "urls_table (processURLs e w) = mark_urls (?X \<union> S) (urls_table ?wk)"
      unfolding 1 eff(1) by (simp add: mark_urls_twice)
    have "row_processed r"
      if "j < length c" and "\<not> Update_fails e (updates ?wk + j)"
        and "r \<in> set (urls_table (processURLs e w))" and "row_url r = MessageBody (c ! j)"
      for j r
    proof -
      have "MessageBody (c ! j) \<in> ?X"
        using that(1,2) by (rule executed_updates_nth)
      then have "row_url r \<in> ?X \<union> S" using that(4) by simp
      then show ?thesis using that(3) unfolding final by (rule mark_urls_processed [rotated])
    qed
    then show ?thesis using eff(2) by blast
  qed
  have 5: "row_processed (urls_table w ! i) \<or>
           row_url (urls_table w ! i) \<in> set (accepted_bodies (tick_events w (processURLs e w)))"
    if i: "i < length (urls_table w)" and p: "row_processed (urls_table (processURLs e w) ! i)"
    for i
  proof -
    let ?new = "tick_events w (processURLs e w)"
    have m: "urls_table (processURLs e w) = mark_urls (set (applied_urls ?new)) (urls_table w)"
      "updated_urls ?new = accepted_bodies ?new"
      using processURLs_marks [of w e] by (simp_all add: marks_by_acceptance_def Let_def)
    show ?thesis
    proof (cases "row_url (urls_table w ! i) \<in> set (applied_urls ?new)")
      case True
      then show ?thesis using applied_urls_subset [of ?new] m(2) by auto
    next
      case False
      then show ?thesis using p i unfolding m(1) by (simp add: mark_urls_nth)
    qed
  qed
  show ?thesis unfolding Let_def using 1 2 3 4 5 by blast
qed

text \<open>
  Twenty-one rows with different urls, and a queue that refuses the second chunk three
  times: the first ten rows and the last are marked, rows 11 to 20 are not, and the third
  chunk is submitted after the second has failed.
\<close>

theorem chunk_failure_isolated_witness:
  "(let w1 = (emit Ev_Find (pending_world 21))\<lparr>finds := 1, messageCount := 21\<rparr>;
        wk = send_and_update env_second_refused
               (take 10 (entries_from 0 (fetched (pending_rows 21)))) w1;
        c = take 10 (drop 10 (entries_from 0 (fetched (pending_rows 21))));
        wk' = send_and_update env_second_refused c wk
    in fst (sendBatch env_second_refused c wk) \<noteq> None \<and>
       urls_table wk' = urls_table wk \<and>
       processURLs env_second_refused (pending_world 21) =
         send_and_update env_second_refused
           (drop 20 (entries_from 0 (fetched (pending_rows 21)))) wk') \<and>
   submissions (trace (processURLs env_second_refused (pending_world 21))) =
     [(0, ids 1 10, True), (0, ids 11 20, False), (2000000000, ids 11 20, False),
      (6000000000, ids 11 20, False), (12000000000, ids 21 21, True)] \<and>
   map row_processed (urls_table (processURLs env_second_refused (pending_world 21))) =
     [True, True, True, True, True, True, True, True, True, True,
      False, False, False, False, False, False, False, False, False, False,
      True]"
proof -
  let ?E = "entries_from 0 (fetched (pending_rows 21))"
  let ?w1 = "(emit Ev_Find (pending_world 21))\<lparr>finds := 1\<rparr>"
  let ?W = "?w1\<lparr>messageCount := messageCount (pending_world 21) +
               of_nat (length (fetched (pending_rows 21)))\<rparr>"
  let ?wk = "fold (send_and_update env_second_refused) [take 10 ?E] ?W"
  let ?c = "take 10 (drop 10 ?E)"
  have mc: "messageCount (pending_world 21) = 0" by (simp add: pending_world_def)
  have W: "?W = (emit Ev_Find (pending_world 21))\<lparr>finds := 1, messageCount := 21\<rparr>"
    by (simp add: pending_world_def fetched_def pending_rows_def)
  have failed: "fst (sendBatch env_second_refused ?c ?wk) \<noteq> None"
    unfolding sendBatch_without_table [of env_second_refused ?c "[take 10 ?E]" ?W]
    by (simp add: run_defs fetched_def pending_world_def pending_rows_def upt_rec
        env_second_refused_def)
  have "processURLs env_second_refused (pending_world 21) =
          fold (send_and_update env_second_refused) [drop 20 ?E]
            (send_and_update env_second_refused ?c ?wk) \<and>
        urls_table (send_and_update env_second_refused ?c ?wk) = urls_table ?wk"
    using chunk_failure_isolated [OF Find_21 chunks_21 [unfolded mc [symmetric]]] failed
    unfolding Let_def mc by blast
  then show ?thesis
    unfolding Let_def W [symmetric]
    using failed submissions_21 processed_21 by simp
qed

text \<open>
  Against C9 as stated, in both directions, with the second chunk of three refused three
  times and the first and third accepted. Twenty-one rows, the eleventh with the url of the
  twenty-first: record 11, of the failed second chunk, ends marked. And twenty-one rows with
  different urls and a database that fails the first update: record 1, of the accepted
  first chunk, ends unmarked.
\<close>

theorem record_of_failed_chunk_marked:
  "submissions (trace (processURLs env_second_refused world_url_in_two_chunks)) =
     [(0, ids 1 10, True), (0, ids 11 20, False), (2000000000, ids 11 20, False),
      (6000000000, ids 11 20, False), (12000000000, ids 21 21, True)] \<and>
   urls_table world_url_in_two_chunks ! 10 =
     \<lparr>row_id = 11, row_url = ''u21'', row_processed = False\<rparr> \<and>
   urls_table (processURLs env_second_refused world_url_in_two_chunks) ! 10 =
     \<lparr>row_id = 11, row_url = ''u21'', row_processed = True\<rparr> \<and>
   submissions (trace (processURLs env_second_refused_update_fails (pending_world 21))) =
     [(0, ids 1 10, True), (0, ids 11 20, False), (2000000000, ids 11 20, False),
      (6000000000, ids 11 20, False), (12000000000, ids 21 21, True)] \<and>
   urls_table (pending_world 21) ! 0 = \<lparr>row_id = 1, row_url = ''u1'', row_processed = False\<rparr> \<and>
   urls_table (processURLs env_second_refused_update_fails (pending_world 21)) ! 0 =
     \<lparr>row_id = 1, row_url = ''u1'', row_processed = False\<rparr>"
proof -
  have "tick_events (pending_world 21)
          (processURLs env_second_refused_update_fails (pending_world 21)) =
        trace (processURLs env_second_refused_update_fails (pending_world 21))"
    by (simp add: tick_events_def pending_world_def)
  then have "urls_table (processURLs env_second_refused_update_fails (pending_world 21)) =
      mark_urls (set [''u2'', ''u3'', ''u4'', ''u5'', ''u6'', ''u7'', ''u8'', ''u9'', ''u10'',
        ''u21'']) (urls_table (pending_world 21))"
    using processURLs_table [of env_second_refused_update_fails "pending_world 21"]
    by (simp only: applied_21_update_fails)
  then have "urls_table (processURLs env_second_refused_update_fails (pending_world 21)) ! 0 =
      mark_urls (set [''u2'', ''u3'', ''u4'', ''u5'', ''u6'', ''u7'', ''u8'', ''u9'', ''u10'',
        ''u21'']) (urls_table (pending_world 21)) ! 0"
    by simp
  also have "\<dots> = \<lparr>row_id = 1, row_url = ''u1'', row_processed = False\<rparr>"
    by (simp add: mark_urls_def pending_world_def pending_rows_def upt_rec dec_digits.simps)
  finally have u: "urls_table (processURLs env_second_refused_update_fails (pending_world 21)) ! 0 =
      \<lparr>row_id = 1, row_url = ''u1'', row_processed = False\<rparr>" .
  have u0: "urls_table (pending_world 21) ! 0 =
      \<lparr>row_id = 1, row_url = ''u1'', row_processed = False\<rparr>"
    by (simp add: pending_world_def pending_rows_def upt_rec dec_digits.simps)
  have s: "submissions (trace (processURLs env_second_refused world_url_in_two_chunks)) =
     [(0, ids 1 10, True), (0, ids 11 20, False), (2000000000, ids 11 20, False),
      (6000000000, ids 11 20, False), (12000000000, ids 21 21, True)]"
    unfolding processURLs_trace [OF Find_two_chunks]
    by (simp add: run_defs fetched_def world_url_in_two_chunks_def rows_url_in_two_chunks_def
        pending_rows_def upt_rec env_second_refused_def submissions_def ids_def)
  have b: "urls_table world_url_in_two_chunks ! 10 =
      \<lparr>row_id = 11, row_url = ''u21'', row_processed = False\<rparr>"
    by (simp add: world_url_in_two_chunks_def rows_url_in_two_chunks_def pending_rows_def upt_rec
        dec_digits.simps)
  have "tick_events world_url_in_two_chunks
          (processURLs env_second_refused world_url_in_two_chunks) =
        trace (processURLs env_second_refused world_url_in_two_chunks)"
    by (simp add: tick_events_def world_url_in_two_chunks_def)
  then have "urls_table (processURLs env_second_refused world_url_in_two_chunks) =
      mark_urls (set [''u1'', ''u2'', ''u3'', ''u4'', ''u5'', ''u6'', ''u7'', ''u8'', ''u9'', ''u10'',
        ''u21'']) (urls_table world_url_in_two_chunks)"
    using processURLs_table [of env_second_refused world_url_in_two_chunks]
    by (simp only: applied_two_chunks)
  then have "urls_table (processURLs env_second_refused world_url_in_two_chunks) ! 10 =
      mark_urls (set [''u1'', ''u2'', ''u3'', ''u4'', ''u5'', ''u6'', ''u7'', ''u8'', ''u9'', ''u10'',
        ''u21'']) (urls_table world_url_in_two_chunks) ! 10"
    by simp
  also have "\<dots> = \<lparr>row_id = 11, row_url = ''u21'', row_processed = True\<rparr>"
    by (simp add: mark_urls_def world_url_in_two_chunks_def rows_url_in_two_chunks_def
        pending_rows_def upt_rec dec_digits.simps)
  finally show ?thesis using s b u u0 submissions_21_update_fails by simp
qed

subsection \<open>C10: the update is keyed on the url\<close>

text \<open>
  Claim C10 says that after a successful submission every row whose url equals the message
  body of an entry is marked. After a successful submission of a batch one update is
  issued per entry, keyed on the url and not on the id; the update for entry number \<open>j\<close>
  is update number \<open>updates w + j\<close>, and when the database executes it, the url counts
  among the executed ones; the rows that are marked are exactly the rows whose url is the
  url of an executed update, whatever their id, and the other rows stay as they were.
\<close>

theorem update_keyed_on_url:
  assumes "fst (sendBatch e batch w) = None"
  shows "updated_urls (tick_events w (send_and_update e batch w)) = map MessageBody batch \<and>
         urls_table (send_and_update e batch w) =
           map (\<lambda>r. if row_url r \<in> set (executed_updates e (updates w) batch)
                    then r\<lparr>row_processed := True\<rparr> else r)
             (urls_table w) \<and>
         set (executed_updates e (updates w) batch) \<subseteq> MessageBody ` set batch \<and>
         (\<forall>j<length batch. \<not> Update_fails e (updates w + j) \<longrightarrow>
            MessageBody (batch ! j) \<in> set (executed_updates e (updates w) batch))"
  using send_and_update_accepted_effect [OF assms] executed_updates_subset [of e "updates w" batch]
    executed_updates_nth [of _ batch e "updates w"]
  by (simp add: mark_urls_def)

text \<open>
  Rows 1 and 2 have the same url and only row 1 has an entry in the batch: both are marked.
\<close>

theorem update_keyed_on_url_witness:
  "fst (sendBatch env_ok [new_entry 1 \<lparr>ID = 1, URL = ''a''\<rparr>] world_same_url) = None \<and>
   executed_updates env_ok (updates world_same_url) [new_entry 1 \<lparr>ID = 1, URL = ''a''\<rparr>] = [''a''] \<and>
   urls_table (send_and_update env_ok [new_entry 1 \<lparr>ID = 1, URL = ''a''\<rparr>] world_same_url) =
     [\<lparr>row_id = 1, row_url = ''a'', row_processed = True\<rparr>,
      \<lparr>row_id = 2, row_url = ''a'', row_processed = True\<rparr>,
      \<lparr>row_id = 3, row_url = ''b'', row_processed = False\<rparr>]"
proof -
  have h: "fst (sendBatch env_ok [new_entry 1 \<lparr>ID = 1, URL = ''a''\<rparr>] world_same_url) = None"
    by (simp add: send_defs env_ok_def)
  have x: "executed_updates env_ok (updates world_same_url) [new_entry 1 \<lparr>ID = 1, URL = ''a''\<rparr>] =
      [''a'']"
    by (simp add: env_ok_def new_entry_def)
  show ?thesis
    using update_keyed_on_url [OF h] h unfolding x
    by (simp add: world_same_url_def rows_same_url_def)
qed

text \<open>
  Against C10 as stated: the batch is accepted and the database fails the update, whose
  result the code discards: no row is marked, rows 1 and 2 with the url of the entry
  included.
\<close>

theorem failed_update_marks_nothing:
  "fst (sendBatch env_updates_fail [new_entry 1 \<lparr>ID = 1, URL = ''a''\<rparr>] world_same_url) = None \<and>
   submissions (trace (send_and_update env_updates_fail [new_entry 1 \<lparr>ID = 1, URL = ''a''\<rparr>]
     world_same_url)) = [(0, [''msg-1''], True)] \<and>
   urls_table (send_and_update env_updates_fail [new_entry 1 \<lparr>ID = 1, URL = ''a''\<rparr>]
     world_same_url) =
     [\<lparr>row_id = 1, row_url = ''a'', row_processed = False\<rparr>,
      \<lparr>row_id = 2, row_url = ''a'', row_processed = False\<rparr>,
      \<lparr>row_id = 3, row_url = ''b'', row_processed = False\<rparr>]"
  by (simp add: run_defs env_updates_fail_def world_same_url_def rows_same_url_def
      submissions_def)

end
